theory Spec2Isabelle
  imports Main "HOL-Library.AList"
begin

section \<open>Text helpers of parser.py\<close>

text \<open>
  Strings are lists of 8-bit characters, read as the code points below 256.  Python's
  \<open>str.isspace\<close>, \<open>str.strip\<close> and the pattern \<open>\s\<close> agree on what a whitespace
  character is; below 256 these are 9..13, 28..32, 133 and 160.
\<close>

definition is_space :: "char \<Rightarrow> bool" where
  "is_space c =
     (let n = (of_char c :: nat)
      in (9 \<le> n \<and> n \<le> 13) \<or> (28 \<le> n \<and> n \<le> 32) \<or> n = 133 \<or> n = 160)"

text \<open>\<open>str.isspace\<close>: false on the empty string.\<close>

definition isspace :: "string \<Rightarrow> bool" where
  "isspace s = (s \<noteq> [] \<and> list_all is_space s)"

definition lstrip_str :: "string \<Rightarrow> string" where
  "lstrip_str s = dropWhile is_space s"

definition rstrip_str :: "string \<Rightarrow> string" where
  "rstrip_str s = rev (dropWhile is_space (rev s))"

definition strip_str :: "string \<Rightarrow> string" where
  "strip_str s = rstrip_str (lstrip_str s)"

text \<open>\<open>re.sub(r"\s+", " ", text)\<close>: every maximal run of whitespace becomes one space.\<close>

function condense :: "string \<Rightarrow> string" where
  "condense [] = []"
| "condense (c # cs) =
     (if is_space c then CHR '' '' # condense (dropWhile is_space cs) else c # condense cs)"
  by pat_completeness auto
termination
  by (relation "measure length") (auto simp: length_dropWhile_le less_Suc_eq_le)

definition condense_text :: "string option \<Rightarrow> string option" where
  "condense_text t = (case t of None \<Rightarrow> None | Some s \<Rightarrow> Some (condense s))"

definition normalize_text :: "string option \<Rightarrow> string option" where
  "normalize_text t = (case t of None \<Rightarrow> None | Some s \<Rightarrow> condense_text (Some (strip_str s)))"

section \<open>The element tree\<close>

text \<open>
  One node of the tree built by the HTML tree builder: tag, attributes, direct text, tail
  text and the ordered children.
\<close>

datatype elem =
  Elem (etag: string) (eattrib: "(string \<times> string) list") (etext: "string option")
       (etail: "string option") (echildren: "elem list")

definition get :: "elem \<Rightarrow> string \<Rightarrow> string option" where
  "get e k = map_of (eattrib e) k"

text \<open>\<open>x is not None and not x.isspace()\<close>, the test applied to direct text and to tails.\<close>

definition visible :: "string option \<Rightarrow> bool" where
  "visible t = (case t of None \<Rightarrow> False | Some s \<Rightarrow> \<not> isspace s)"

fun elem_has_text :: "elem \<Rightarrow> bool \<Rightarrow> bool"
  and tails_have_text :: "elem list \<Rightarrow> bool \<Rightarrow> bool" where
  "elem_has_text (Elem t a tx ta cs) with_children =
     (if visible tx then True else tails_have_text cs with_children)"
| "tails_have_text [] with_children = False"
| "tails_have_text (c # cs) with_children =
     (if with_children \<and> elem_has_text c True then True
      else if visible (etail c) then True
      else tails_have_text cs with_children)"

text \<open>\<open>"".join(elem.itertext())\<close>: text, then for each child its own text and its tail.\<close>

fun itertext :: "elem \<Rightarrow> string"
  and itertext_children :: "elem list \<Rightarrow> string" where
  "itertext (Elem t a tx ta cs) =
     (case tx of None \<Rightarrow> [] | Some s \<Rightarrow> s) @ itertext_children cs"
| "itertext_children [] = []"
| "itertext_children (c # cs) =
     itertext c @ (case etail c of None \<Rightarrow> [] | Some s \<Rightarrow> s) @ itertext_children cs"

definition gather_text :: "elem \<Rightarrow> string option" where
  "gather_text e = normalize_text (Some (itertext e))"

section \<open>Blocks and rich text\<close>

text \<open>
  Modelled from the spec: the modules \<open>blocks\<close>, \<open>text\<close> and \<open>types\<close> that parser.py
  imports.  The style snapshot carries the five boolean flags of the spec's StyleState.
\<close>

record annotations =
  bold :: bool
  italic :: bool
  strikethrough :: bool
  underline :: bool
  code :: bool

definition Annotations :: annotations where
  "Annotations = \<lparr>bold = False, italic = False, strikethrough = False,
                   underline = False, code = False\<rparr>"

text \<open>
  Modelled from the spec: a RichTextRun is the display text, the style snapshot and the
  optional link target.
\<close>

record text_object =
  plain_text :: string
  href :: "string option"
  annotations :: annotations

text \<open>
  Modelled from the spec: \<open>TextObject.from_value\<close>.  A null text gives no run; any other
  text, the empty one included (an empty table cell holds "an empty text run"), gives a
  run with the current link target and style.
\<close>

definition from_value :: "string option \<Rightarrow> string option \<Rightarrow> annotations \<Rightarrow> text_object option" where
  "from_value t h style =
     (case t of None \<Rightarrow> None
      | Some s \<Rightarrow> Some \<lparr>plain_text = s, href = h, annotations = style\<rparr>)"

text \<open>Modelled from the spec: \<open>text.lstrip\<close> and \<open>text.rstrip\<close> on one run.\<close>

definition lstrip :: "text_object \<Rightarrow> text_object" where
  "lstrip r = r\<lparr>plain_text := lstrip_str (plain_text r)\<rparr>"

definition rstrip :: "text_object \<Rightarrow> text_object" where
  "rstrip r = r\<lparr>plain_text := rstrip_str (plain_text r)\<rparr>"

datatype kind =
  Paragraph | Heading1 | Heading2 | Heading3 | Quote | Code
  | BulletedListItem | NumberedListItem

text \<open>
  Modelled from the spec: the block variants.  A text block owns its runs and its child
  blocks; a table owns its header flag and what was appended to it; a row owns one cell
  per append, holding the object it was given (a run, nothing, or a block).
\<close>

datatype block =
    TextBlock kind "text_object list" "block list"
  | Table bool "block list"
  | TableRow "cell list"
  | Divider
  | Image string
  | Embed string
and cell =
    TextCell "text_object option"
  | BlockCell block

text \<open>
  The \<open>parent\<close> argument of the handlers: the parser's own \<open>content\<close> list, or a block.
\<close>

datatype parent = PList "block list" | PBlock block

fun is_text_block :: "parent \<Rightarrow> bool" where
  "is_text_block (PBlock (TextBlock k rs cs)) = True"
| "is_text_block p = False"

fun is_code :: "parent \<Rightarrow> bool" where
  "is_code (PBlock (TextBlock k rs cs)) = (k = Code)"
| "is_code p = False"

fun is_table :: "parent \<Rightarrow> bool" where
  "is_table (PBlock (Table h cs)) = True"
| "is_table p = False"

fun is_table_row :: "parent \<Rightarrow> bool" where
  "is_table_row (PBlock (TableRow cells)) = True"
| "is_table_row p = False"

text \<open>
  Modelled from the spec: \<open>append\<close> of a list, a text block, a table and a row.  Leaf
  blocks are never a parent.
\<close>

fun append :: "parent \<Rightarrow> block \<Rightarrow> parent" where
  "append (PList xs) b = PList (xs @ [b])"
| "append (PBlock (TextBlock k rs cs)) b = PBlock (TextBlock k rs (cs @ [b]))"
| "append (PBlock (Table h cs)) b = PBlock (Table h (cs @ [b]))"
| "append (PBlock (TableRow cells)) b = PBlock (TableRow (cells @ [BlockCell b]))"
| "append p b = p"

text \<open>Modelled from the spec: \<open>TableRow.append\<close> of the result of \<open>from_value\<close>.\<close>

fun append_cell :: "parent \<Rightarrow> text_object option \<Rightarrow> parent" where
  "append_cell (PBlock (TableRow cells)) obj = PBlock (TableRow (cells @ [TextCell obj]))"
| "append_cell p obj = p"

text \<open>Modelled from the spec: \<open>TextBlock.concat\<close> of one run.\<close>

fun concat_run :: "parent \<Rightarrow> text_object \<Rightarrow> parent" where
  "concat_run (PBlock (TextBlock k rs cs)) r = PBlock (TextBlock k (rs @ [r]) cs)"
| "concat_run p r = p"

text \<open>
  Modelled from the spec: \<open>TextBlock.concat\<close> of a plain string, as the br handler uses
  it: the string goes into the current text content without a new run.  A block that has
  no run yet gets a plain run to hold it.
\<close>

fun concat_str :: "parent \<Rightarrow> string \<Rightarrow> parent" where
  "concat_str (PBlock (TextBlock k rs cs)) s =
     (if rs = []
      then PBlock (TextBlock k [\<lparr>plain_text = s, href = None, annotations = Annotations\<rparr>] cs)
      else PBlock (TextBlock k (butlast rs @ [(last rs)\<lparr>plain_text := plain_text (last rs) @ s\<rparr>]) cs))"
| "concat_str p s = p"

text \<open>
  Modelled from the spec: the width of a row is its number of cells, the width of a table
  the largest width of a row in it, so that width 0 means "no row with a cell".
\<close>

fun row_width :: "block \<Rightarrow> nat" where
  "row_width (TableRow cells) = length cells"
| "row_width b = 0"

fun Width :: "block \<Rightarrow> nat" where
  "Width (Table h cs) = foldr max (map row_width cs) 0"
| "Width b = row_width b"

fun set_has_column_header :: "parent \<Rightarrow> parent" where
  "set_has_column_header (PBlock (Table h cs)) = PBlock (Table True cs)"
| "set_has_column_header p = p"

text \<open>\<open>strip_text_block\<close>: text blocks other than Code lose the edge whitespace.\<close>

fun strip_text_block :: "parent \<Rightarrow> parent" where
  "strip_text_block (PBlock (TextBlock k rs cs)) =
     (if k = Code then PBlock (TextBlock k rs cs)
      else if rs = [] then PBlock (TextBlock k rs cs)
      else (let rs1 = lstrip (hd rs) # tl rs;
                rs2 = butlast rs1 @ [rstrip (last rs1)]
            in PBlock (TextBlock k rs2 cs)))"
| "strip_text_block p = p"

section \<open>The parser object\<close>

text \<open>
  Both failures of the HTML parser are Python \<open>TypeError\<close>s; the message tells them
  apart.
\<close>

datatype error = TypeError string

text \<open>
  The fields of an \<open>HtmlParser\<close> instance.  \<open>meta\<close> is a dictionary: an association list
  in insertion order, updated in place.
\<close>

record parser =
  title :: "string option"
  content :: "block list"
  base_url :: "string option"
  meta :: "(string \<times> string) list"
  current_href :: "string option"
  current_text_style :: annotations

text \<open>\<open>HtmlParser.__init__\<close>\<close>

definition init :: "string option \<Rightarrow> parser" where
  "init base = \<lparr>title = None, content = [], base_url = base, meta = [],
                 current_href = None, current_text_style = Annotations\<rparr>"

text \<open>
  A handler returns the parent it was given, as it has mutated it, and the parser fields;
  or the exception together with the arguments of the \<open>_render\<close> call that raised, the
  element and the parent, and the parser fields, as they were at the raise.
\<close>

type_synonym call = "elem \<times> parent \<times> parser"

type_synonym result = "(error \<times> call) + (parent \<times> parser)"

definition and_then :: "result \<Rightarrow> (parent \<Rightarrow> parser \<Rightarrow> result) \<Rightarrow> result" where
  "and_then r f = (case r of Inl x \<Rightarrow> Inl x | Inr (p, st) \<Rightarrow> f p st)"

text \<open>\<open>_append_text\<close>\<close>

definition append_text :: "string option \<Rightarrow> parent \<Rightarrow> parser \<Rightarrow> parent" where
  "append_text t parent st =
     (let t1 = (if \<not> is_code parent then condense_text t else t);
          obj = from_value t1 (current_href st) (current_text_style st)
      in if is_text_block parent
         then (case obj of None \<Rightarrow> parent | Some r \<Rightarrow> concat_run parent r)
         else if is_table_row parent then append_cell parent obj
         else parent)"

text \<open>
  A block built by a handler comes back from the recursive calls as the parent it was
  passed as; \<open>append_parent\<close> appends it to the outer parent.
\<close>

fun append_parent :: "parent \<Rightarrow> parent \<Rightarrow> parent" where
  "append_parent p (PBlock b) = append p b"
| "append_parent p (PList xs) = p"

fun parent_width :: "parent \<Rightarrow> nat" where
  "parent_width (PBlock b) = Width b"
| "parent_width (PList xs) = 0"

datatype flag = FBold | FItalic | FUnderline | FStrikethrough | FCode

fun set_flag :: "flag \<Rightarrow> bool \<Rightarrow> annotations \<Rightarrow> annotations" where
  "set_flag FBold v s = s\<lparr>bold := v\<rparr>"
| "set_flag FItalic v s = s\<lparr>italic := v\<rparr>"
| "set_flag FUnderline v s = s\<lparr>underline := v\<rparr>"
| "set_flag FStrikethrough v s = s\<lparr>strikethrough := v\<rparr>"
| "set_flag FCode v s = s\<lparr>code := v\<rparr>"

fun get_flag :: "flag \<Rightarrow> annotations \<Rightarrow> bool" where
  "get_flag FBold s = bold s"
| "get_flag FItalic s = italic s"
| "get_flag FUnderline s = underline s"
| "get_flag FStrikethrough s = strikethrough s"
| "get_flag FCode s = code s"

section \<open>The dispatch table\<close>

text \<open>
  \<open>_render\<close> looks the method \<open>_render_<tag>\<close> up by name.  The methods fall into a few
  bodies; a method that only calls another one (\<open>_render_em\<close> calls \<open>_render_i\<close>) has
  the body of its delegate.  \<open>_render_s\<close> is apart: it passes \<open>self\<close> twice.
\<close>

datatype handler =
    H_a | H_style flag | H_s | H_base | H_block kind | H_transparent | H_br | H_hr
  | H_iframe | H_img | H_list kind | H_meta | H_table | H_td | H_thead | H_title | H_tr

definition handlers :: "(string \<times> handler) list" where
  "handlers =
    [(''a'', H_a),
     (''b'', H_style FBold),
     (''base'', H_base),
     (''blockquote'', H_block Quote),
     (''body'', H_transparent),
     (''br'', H_br),
     (''code'', H_style FCode),
     (''dd'', H_transparent),
     (''del'', H_style FStrikethrough),
     (''div'', H_transparent),
     (''dl'', H_block Paragraph),
     (''dt'', H_transparent),
     (''em'', H_style FItalic),
     (''h1'', H_block Heading1),
     (''h2'', H_block Heading2),
     (''h3'', H_block Heading3),
     (''h4'', H_block Heading3),
     (''h5'', H_block Heading3),
     (''h6'', H_block Heading3),
     (''head'', H_transparent),
     (''hgroup'', H_transparent),
     (''hr'', H_hr),
     (''html'', H_transparent),
     (''i'', H_style FItalic),
     (''iframe'', H_iframe),
     (''img'', H_img),
     (''ins'', H_style FUnderline),
     (''kbd'', H_style FCode),
     (''li'', H_transparent),
     (''menu'', H_list BulletedListItem),
     (''meta'', H_meta),
     (''object'', H_transparent),
     (''ol'', H_list NumberedListItem),
     (''p'', H_block Paragraph),
     (''pre'', H_block Code),
     (''s'', H_s),
     (''samp'', H_style FCode),
     (''span'', H_transparent),
     (''strike'', H_style FStrikethrough),
     (''strong'', H_style FBold),
     (''table'', H_table),
     (''tbody'', H_transparent),
     (''td'', H_td),
     (''tfoot'', H_transparent),
     (''th'', H_td),
     (''thead'', H_thead),
     (''title'', H_title),
     (''tr'', H_tr),
     (''tt'', H_block Code),
     (''u'', H_style FUnderline),
     (''ul'', H_list BulletedListItem),
     (''var'', H_style FCode)]"

text \<open>\<open>hasattr(self, f"_render_{elem.tag}")\<close> and \<open>getattr\<close>\<close>

definition handler_of :: "string \<Rightarrow> handler option" where
  "handler_of t = map_of handlers t"

definition invalid_parent :: "string \<Rightarrow> error" where
  "invalid_parent t = TypeError (''Invalid parent for <'' @ t @ ''>'')"

definition too_many_arguments :: error where
  "too_many_arguments =
     TypeError ''_render_del() takes 3 positional arguments but 4 were given''"

lemma size_list_filter: "size_list f (filter P xs) \<le> size_list f xs"
  by (induction xs) auto

section \<open>Rendering\<close>

text \<open>
  \<open>render\<close> is \<open>_render\<close> with the body of the method it finds, \<open>process_contents\<close> is \<open>_process_contents\<close> and \<open>process_children\<close> its loop over the
  children, \<open>process_list\<close> the loop of \<open>_process_list\<close>, \<open>render_cells\<close> the loop of
  \<open>_render_tr\<close> over \<open>elem.findall("td")\<close>.

  Two blocks are appended to their parent and filled afterwards through the variable that
  still names them: the paragraph that \<open>_process_contents\<close> inserts, and the list item of
  \<open>_process_list\<close> when a child that is not an \<open>li\<close> follows it.  Nothing else touches their
  parent meanwhile, so the model fills such a block first and appends it when the code
  lets go of it; in \<open>process_list\<close> the argument \<open>list_parent\<close> is \<open>None\<close> while the
  variable is the outer parent itself.
\<close>

fun flush :: "parent \<Rightarrow> parent option \<Rightarrow> parent" where
  "flush parent None = parent"
| "flush parent (Some lp) = append_parent parent lp"

text \<open>\<open>_render_meta\<close>: \<open>if name and value\<close> holds for two non-empty strings.\<close>

definition render_meta :: "(string \<times> string) list \<Rightarrow> parser \<Rightarrow> parser" where
  "render_meta a st =
     (case (map_of a ''name'', map_of a ''content'') of
        (Some name, Some v) \<Rightarrow>
          if name \<noteq> [] \<and> v \<noteq> [] then st\<lparr>meta := AList.update name v (meta st)\<rparr> else st
      | _ \<Rightarrow> st)"

function (sequential) render :: "elem \<Rightarrow> parent \<Rightarrow> parser \<Rightarrow> result"
  and process_contents :: "elem \<Rightarrow> parent \<Rightarrow> parser \<Rightarrow> result"
  and process_children :: "elem list \<Rightarrow> bool \<Rightarrow> parent \<Rightarrow> parser \<Rightarrow> result"
  and process_list :: "elem list \<Rightarrow> kind \<Rightarrow> parent \<Rightarrow> parent option \<Rightarrow> parser \<Rightarrow> result"
  and render_cells :: "elem list \<Rightarrow> parent \<Rightarrow> parser \<Rightarrow> result"
where
  "render (Elem t a tx ta cs) parent st =
     (case handler_of t of
        None \<Rightarrow> Inr (parent, st)
      | Some h \<Rightarrow>
         (case h of
            H_a \<Rightarrow>
              and_then (process_contents (Elem t a tx ta cs) parent
                          (st\<lparr>current_href := map_of a ''href''\<rparr>))
                (\<lambda>p st1. Inr (p, st1\<lparr>current_href := None\<rparr>))
          | H_style f \<Rightarrow>
              and_then (process_contents (Elem t a tx ta cs) parent
                          (st\<lparr>current_text_style := set_flag f True (current_text_style st)\<rparr>))
                (\<lambda>p st1. Inr (p, st1\<lparr>current_text_style :=
                                         set_flag f False (current_text_style st1)\<rparr>))
          | H_s \<Rightarrow> Inl (too_many_arguments, Elem t a tx ta cs, parent, st)
          | H_base \<Rightarrow>
              (case map_of a ''href'' of
                 None \<Rightarrow> Inr (parent, st)
               | Some b \<Rightarrow> Inr (parent, st\<lparr>base_url := Some b\<rparr>))
          | H_block k \<Rightarrow>
              and_then (process_contents (Elem t a tx ta cs) (PBlock (TextBlock k [] [])) st)
                (\<lambda>b st1. Inr (append_parent parent b, st1))
          | H_transparent \<Rightarrow> process_contents (Elem t a tx ta cs) parent st
          | H_br \<Rightarrow>
              (if is_text_block parent then Inr (concat_str parent [CHR 0x0A], st)
               else Inr (parent, st))
          | H_hr \<Rightarrow> Inr (append parent Divider, st)
          | H_iframe \<Rightarrow>
              (case map_of a ''src'' of
                 None \<Rightarrow> Inr (parent, st)
               | Some src \<Rightarrow> Inr (append parent (Embed src), st))
          | H_img \<Rightarrow>
              (case map_of a ''src'' of
                 None \<Rightarrow> Inr (parent, st)
               | Some src \<Rightarrow> Inr (append parent (Image src), st))
          | H_list k \<Rightarrow> process_list cs k parent None st
          | H_meta \<Rightarrow> Inr (parent, render_meta a st)
          | H_table \<Rightarrow>
              and_then (process_contents (Elem t a tx ta cs) (PBlock (Table False [])) st)
                (\<lambda>table st1.
                   if parent_width table > 0 then Inr (append_parent parent table, st1)
                   else Inr (parent, st1))
          | H_td \<Rightarrow>
              (if \<not> is_table_row parent
               then Inl (invalid_parent ''td'', Elem t a tx ta cs, parent, st)
               else if elem_has_text (Elem t a tx ta cs) True
               then process_contents (Elem t a tx ta cs) parent st
               else Inr (append_text (Some []) parent st, st))
          | H_thead \<Rightarrow>
              (if \<not> is_table parent
               then Inl (invalid_parent ''thead'', Elem t a tx ta cs, parent, st)
               else process_contents (Elem t a tx ta cs) (set_has_column_header parent) st)
          | H_title \<Rightarrow> Inr (parent, st\<lparr>title := gather_text (Elem t a tx ta cs)\<rparr>)
          | H_tr \<Rightarrow>
              (if \<not> is_table parent
               then Inl (invalid_parent ''tr'', Elem t a tx ta cs, parent, st)
               else and_then (render_cells (filter (\<lambda>c. etag c = ''td'') cs)
                                (PBlock (TableRow [])) st)
                      (\<lambda>row st1. Inr (append_parent parent row, st1)))))"

| "process_contents (Elem t a tx ta cs) parent st =
     (if \<not> elem_has_text (Elem t a tx ta cs) False
      then and_then (process_children cs False parent st)
             (\<lambda>p st1. Inr (strip_text_block p, st1))
      else if is_text_block parent \<or> is_table_row parent
      then and_then (process_children cs True (append_text tx parent st) st)
             (\<lambda>p st1. Inr (strip_text_block p, st1))
      else and_then (process_children cs True
                       (append_text tx (PBlock (TextBlock Paragraph [] [])) st) st)
             (\<lambda>new_parent st1.
                Inr (append_parent parent (strip_text_block new_parent), st1)))"

| "process_children [] has_text parent st = Inr (parent, st)"

| "process_children (c # cs) has_text parent st =
     and_then (render c parent st)
       (\<lambda>p st1. process_children cs has_text
                   (if has_text then append_text (etail c) p st1 else p) st1)"

| "process_list [] k parent list_parent st = Inr (flush parent list_parent, st)"

| "process_list (c # cs) k parent list_parent st =
     (if etag c = ''li''
      then and_then (render c (PBlock (TextBlock k [] [])) st)
             (\<lambda>item st1. process_list cs k (flush parent list_parent) (Some item) st1)
      else (case list_parent of
              None \<Rightarrow>
                and_then (render c parent st)
                  (\<lambda>p st1. process_list cs k p None st1)
            | Some lp \<Rightarrow>
                and_then (render c lp st)
                  (\<lambda>lp1 st1. process_list cs k parent (Some lp1) st1)))"

| "render_cells [] row st = Inr (row, st)"

| "render_cells (td # tds) row st =
     and_then (render td row st) (\<lambda>row1 st1. render_cells tds row1 st1)"

  by pat_completeness auto
termination
proof (relation "measure (\<lambda>x. case x of
          Inl (Inl (e, p, st)) \<Rightarrow> 2 * size e + 1
        | Inl (Inr (e, p, st)) \<Rightarrow> 2 * size e
        | Inr (Inl (cs, h, p, st)) \<Rightarrow> 2 * size_list size cs
        | Inr (Inr (Inl (cs, k, p, lp, st))) \<Rightarrow> 2 * size_list size cs
        | Inr (Inr (Inr (cs, p, st))) \<Rightarrow> 2 * size_list size cs)", goal_cases)
  case (10 t a tx ta cs parent st x2)
  have "size_list size (filter (\<lambda>c. etag c = ''td'') cs) \<le> size_list size cs"
    by (rule size_list_filter)
  then show ?case by simp
qed simp_all

text \<open>\<open>os.path.basename\<close>: what follows the last slash.\<close>

definition basename :: "string \<Rightarrow> string" where
  "basename s = rev (takeWhile (\<lambda>c. c \<noteq> CHR ''/'') (rev s))"

text \<open>
  \<open>HtmlParser.parse\<close>.  The tree builder is not part of the parser: \<open>doc\<close> is the tree it
  returns for \<open>data\<close>, and \<open>name\<close> is \<open>data.name\<close> where \<open>data\<close> has one.  \<open>_render(doc)\<close>
  runs with the parser's own \<open>content\<close> list as the parent.
\<close>

fun content_of :: "parent \<Rightarrow> block list" where
  "content_of (PList xs) = xs"
| "content_of (PBlock b) = []"

definition parse :: "string option \<Rightarrow> elem \<Rightarrow> parser \<Rightarrow> (error \<times> call) + parser" where
  "parse name doc self =
     (let self1 = (case name of None \<Rightarrow> self | Some n \<Rightarrow> self\<lparr>title := Some (basename n)\<rparr>)
      in case render doc (PList (content self1)) self1 of
           Inl x \<Rightarrow> Inl x
         | Inr (p, st) \<Rightarrow> Inr (st\<lparr>content := content_of p\<rparr>))"

section \<open>Predicates used in the statements\<close>

text \<open>
  The three structure errors; when an element is given to \<open>_render\<close> with a parent of the
  wrong type for its tag, and the error its handler then raises (\<open>_render_th\<close> raises the
  error of \<open>_render_td\<close>).
\<close>

definition structure_error :: "error \<Rightarrow> bool" where
  "structure_error err =
     (err = invalid_parent ''td'' \<or> err = invalid_parent ''thead'' \<or> err = invalid_parent ''tr'')"

definition misparented :: "elem \<Rightarrow> parent \<Rightarrow> bool" where
  "misparented e p =
     (((etag e = ''thead'' \<or> etag e = ''tr'') \<and> \<not> is_table p) \<or>
      ((etag e = ''td'' \<or> etag e = ''th'') \<and> \<not> is_table_row p))"

definition parent_error :: "elem \<Rightarrow> error" where
  "parent_error e = invalid_parent (if etag e = ''th'' then ''td'' else etag e)"

text \<open>
  The calls of \<open>_render\<close> that rendering makes, each with the element, the parent and the
  parser fields it is made with: \<open>render_visits e parent st v\<close> says that \<open>_render(e,
  parent)\<close>, started with the fields \<open>st\<close>, makes the call \<open>v\<close> (itself included), and the
  other four say the same of \<open>_process_contents\<close> and of the three loops.  A later step
  of a loop is reached only when the steps before it have returned.
\<close>

inductive
  render_visits :: "elem \<Rightarrow> parent \<Rightarrow> parser \<Rightarrow> call \<Rightarrow> bool" and
  contents_visits :: "elem \<Rightarrow> parent \<Rightarrow> parser \<Rightarrow> call \<Rightarrow> bool" and
  children_visits :: "elem list \<Rightarrow> bool \<Rightarrow> parent \<Rightarrow> parser \<Rightarrow> call \<Rightarrow> bool" and
  list_visits :: "elem list \<Rightarrow> kind \<Rightarrow> parent \<Rightarrow> parent option \<Rightarrow> parser \<Rightarrow> call \<Rightarrow> bool" and
  cells_visits :: "elem list \<Rightarrow> parent \<Rightarrow> parser \<Rightarrow> call \<Rightarrow> bool"
where
  here: "render_visits e parent st (e, parent, st)"
| via_a:
    "handler_of t = Some H_a \<Longrightarrow>
     contents_visits (Elem t a tx ta cs) parent (st\<lparr>current_href := map_of a ''href''\<rparr>) v \<Longrightarrow>
     render_visits (Elem t a tx ta cs) parent st v"
| via_style:
    "handler_of t = Some (H_style f) \<Longrightarrow>
     contents_visits (Elem t a tx ta cs) parent
       (st\<lparr>current_text_style := set_flag f True (current_text_style st)\<rparr>) v \<Longrightarrow>
     render_visits (Elem t a tx ta cs) parent st v"
| via_block:
    "handler_of t = Some (H_block k) \<Longrightarrow>
     contents_visits (Elem t a tx ta cs) (PBlock (TextBlock k [] [])) st v \<Longrightarrow>
     render_visits (Elem t a tx ta cs) parent st v"
| via_transparent:
    "handler_of t = Some H_transparent \<Longrightarrow>
     contents_visits (Elem t a tx ta cs) parent st v \<Longrightarrow>
     render_visits (Elem t a tx ta cs) parent st v"
| via_list:
    "handler_of t = Some (H_list k) \<Longrightarrow>
     list_visits cs k parent None st v \<Longrightarrow>
     render_visits (Elem t a tx ta cs) parent st v"
| via_table:
    "handler_of t = Some H_table \<Longrightarrow>
     contents_visits (Elem t a tx ta cs) (PBlock (Table False [])) st v \<Longrightarrow>
     render_visits (Elem t a tx ta cs) parent st v"
| via_td:
    "handler_of t = Some H_td \<Longrightarrow> is_table_row parent \<Longrightarrow>
     elem_has_text (Elem t a tx ta cs) True \<Longrightarrow>
     contents_visits (Elem t a tx ta cs) parent st v \<Longrightarrow>
     render_visits (Elem t a tx ta cs) parent st v"
| via_thead:
    "handler_of t = Some H_thead \<Longrightarrow> is_table parent \<Longrightarrow>
     contents_visits (Elem t a tx ta cs) (set_has_column_header parent) st v \<Longrightarrow>
     render_visits (Elem t a tx ta cs) parent st v"
| via_tr:
    "handler_of t = Some H_tr \<Longrightarrow> is_table parent \<Longrightarrow>
     cells_visits (filter (\<lambda>c. etag c = ''td'') cs) (PBlock (TableRow [])) st v \<Longrightarrow>
     render_visits (Elem t a tx ta cs) parent st v"
| contents_plain:
    "\<not> elem_has_text (Elem t a tx ta cs) False \<Longrightarrow>
     children_visits cs False parent st v \<Longrightarrow>
     contents_visits (Elem t a tx ta cs) parent st v"
| contents_text:
    "elem_has_text (Elem t a tx ta cs) False \<Longrightarrow>
     is_text_block parent \<or> is_table_row parent \<Longrightarrow>
     children_visits cs True (append_text tx parent st) st v \<Longrightarrow>
     contents_visits (Elem t a tx ta cs) parent st v"
| contents_wrapped:
    "elem_has_text (Elem t a tx ta cs) False \<Longrightarrow>
     \<not> (is_text_block parent \<or> is_table_row parent) \<Longrightarrow>
     children_visits cs True (append_text tx (PBlock (TextBlock Paragraph [] [])) st) st v \<Longrightarrow>
     contents_visits (Elem t a tx ta cs) parent st v"
| child_first:
    "render_visits c parent st v \<Longrightarrow> children_visits (c # cs) has_text parent st v"
| child_later:
    "render c parent st = Inr (p, st1) \<Longrightarrow>
     children_visits cs has_text (if has_text then append_text (etail c) p st1 else p) st1 v \<Longrightarrow>
     children_visits (c # cs) has_text parent st v"
| list_li:
    "etag c = ''li'' \<Longrightarrow>
     render_visits c (PBlock (TextBlock k [] [])) st v \<Longrightarrow>
     list_visits (c # cs) k parent list_parent st v"
| list_li_later:
    "etag c = ''li'' \<Longrightarrow>
     render c (PBlock (TextBlock k [] [])) st = Inr (item, st1) \<Longrightarrow>
     list_visits cs k (flush parent list_parent) (Some item) st1 v \<Longrightarrow>
     list_visits (c # cs) k parent list_parent st v"
| list_outer:
    "etag c \<noteq> ''li'' \<Longrightarrow>
     render_visits c parent st v \<Longrightarrow>
     list_visits (c # cs) k parent None st v"
| list_outer_later:
    "etag c \<noteq> ''li'' \<Longrightarrow>
     render c parent st = Inr (p, st1) \<Longrightarrow>
     list_visits cs k p None st1 v \<Longrightarrow>
     list_visits (c # cs) k parent None st v"
| list_item:
    "etag c \<noteq> ''li'' \<Longrightarrow>
     render_visits c lp st v \<Longrightarrow>
     list_visits (c # cs) k parent (Some lp) st v"
| list_item_later:
    "etag c \<noteq> ''li'' \<Longrightarrow>
     render c lp st = Inr (lp1, st1) \<Longrightarrow>
     list_visits cs k parent (Some lp1) st1 v \<Longrightarrow>
     list_visits (c # cs) k parent (Some lp) st v"
| cell_first:
    "render_visits td row st v \<Longrightarrow> cells_visits (td # tds) row st v"
| cell_later:
    "render td row st = Inr (row1, st1) \<Longrightarrow>
     cells_visits tds row1 st1 v \<Longrightarrow>
     cells_visits (td # tds) row st v"

text \<open>
  What an error says about the call that raised it: \<open>_render_s\<close> with its arguments, or a
  table handler with a parent of the wrong type.
\<close>

definition raised_at :: "error \<Rightarrow> call \<Rightarrow> bool" where
  "raised_at err v =
     (case v of (e, p, st) \<Rightarrow>
        (err = too_many_arguments \<and> handler_of (etag e) = Some H_s) \<or>
        (misparented e p \<and> err = parent_error e))"

text \<open>
  What a handler leaves untouched in its parent: whether it is the content list, a text
  block of some kind, a table or a row.
\<close>

datatype shape = SList | SText kind | STable | SRow | SLeaf block

fun shape_of :: "parent \<Rightarrow> shape" where
  "shape_of (PList xs) = SList"
| "shape_of (PBlock (TextBlock k rs cs)) = SText k"
| "shape_of (PBlock (Table h cs)) = STable"
| "shape_of (PBlock (TableRow cells)) = SRow"
| "shape_of (PBlock b) = SLeaf b"

text \<open>
  A block is well formed when every table in it, at any depth, has a positive width.  A
  parent that is still being filled is well formed below itself: a table under
  construction may still have width 0.  The list item that \<open>_process_list\<close> keeps filling
  is a text block.
\<close>

fun tables_ok :: "block \<Rightarrow> bool" and cell_ok :: "cell \<Rightarrow> bool" where
  "tables_ok (TextBlock k rs cs) = list_all tables_ok cs"
| "tables_ok (Table h cs) = (0 < Width (Table h cs) \<and> list_all tables_ok cs)"
| "tables_ok (TableRow cells) = list_all cell_ok cells"
| "tables_ok Divider = True"
| "tables_ok (Image src) = True"
| "tables_ok (Embed src) = True"
| "cell_ok (TextCell obj) = True"
| "cell_ok (BlockCell b) = tables_ok b"

fun building_ok :: "parent \<Rightarrow> bool" where
  "building_ok (PList xs) = list_all tables_ok xs"
| "building_ok (PBlock (Table h cs)) = list_all tables_ok cs"
| "building_ok (PBlock b) = tables_ok b"

fun item_ok :: "parent option \<Rightarrow> bool" where
  "item_ok None = True"
| "item_ok (Some q) = (building_ok q \<and> (\<exists>k. shape_of q = SText k))"

text \<open>
  For two runs of the parser on one tree: \<open>prepend\<close> puts the blocks a content list
  already holds in front of it; two parsers have the same style when their current text
  style and link target agree; a result is carried over when the second run returns the
  same parent after those blocks, with the same style again, or fails as the first does.
  A parser is calmer than another when no style flag is on that was off there and its link
  target is none or the same.
\<close>

fun prepend :: "block list \<Rightarrow> parent \<Rightarrow> parent" where
  "prepend pre (PList xs) = PList (pre @ xs)"
| "prepend pre (PBlock b) = PBlock b"

definition same_style :: "parser \<Rightarrow> parser \<Rightarrow> bool" where
  "same_style st st2 =
     (current_text_style st = current_text_style st2 \<and> current_href st = current_href st2)"

fun carried :: "block list \<Rightarrow> result \<Rightarrow> result \<Rightarrow> bool" where
  "carried pre (Inr (p, st)) (Inr (q, st2)) = (q = prepend pre p \<and> same_style st st2)"
| "carried pre (Inl x) (Inl y) = (fst x = fst y)"
| "carried pre r r2 = False"

definition calmer :: "parser \<Rightarrow> parser \<Rightarrow> bool" where
  "calmer st' st =
     ((\<forall>f. get_flag f (current_text_style st') \<longrightarrow> get_flag f (current_text_style st)) \<and>
      (current_href st' = None \<or> current_href st' = current_href st))"

section \<open>Basic facts\<close>

declare render.simps [simp del] process_contents.simps [simp del]

lemma and_then_Inr:
  "and_then r f = Inr x \<longleftrightarrow> (\<exists>p st. r = Inr (p, st) \<and> f p st = Inr x)"
  by (auto simp: and_then_def split: sum.splits)

lemma and_then_Inl:
  "and_then r f = Inl x \<longleftrightarrow> r = Inl x \<or> (\<exists>p st. r = Inr (p, st) \<and> f p st = Inl x)"
  by (auto simp: and_then_def split: sum.splits)

lemma handler_of_s: "handler_of ''s'' = Some H_s"
  by (simp add: handler_of_def handlers_def)

lemma handler_of_foo: "handler_of ''foo'' = None"
  by (simp add: handler_of_def handlers_def)

lemmas eval_base = and_then_def visible_def isspace_def is_space_def append_text_def
  condense_text_def from_value_def init_def lstrip_def rstrip_def lstrip_str_def rstrip_str_def
  strip_str_def Let_def process_contents.simps Annotations_def parse_def invalid_parent_def
  too_many_arguments_def

lemmas eval_defs = eval_base handler_of_def handlers_def render.simps

lemma handler_of_tr: "handler_of ''tr'' = Some H_tr"
  by (simp add: handler_of_def handlers_def)

lemma handler_of_td: "handler_of ''td'' = Some H_td" "handler_of ''th'' = Some H_td"
  by (simp_all add: handler_of_def handlers_def)

lemma handler_of_thead: "handler_of ''thead'' = Some H_thead"
  by (simp add: handler_of_def handlers_def)

lemma handler_of_pre_p: "handler_of ''pre'' = Some (H_block Code)" "handler_of ''p'' = Some (H_block Paragraph)"
  by (simp_all add: handler_of_def handlers_def)

section \<open>Unknown tags\<close>

lemma visible_None [simp]: "\<not> visible None"
  by (simp add: visible_def)

lemma strip_row: "is_table_row p \<Longrightarrow> strip_text_block p = p"
  by (cases p rule: strip_text_block.cases) auto

lemma unknown_render:
  "handler_of t = None \<Longrightarrow> render (Elem t a tx ta cs) parent st = Inr (parent, st)"
  by (simp add: render.simps)

lemma unknown_in_cell:
  assumes "handler_of t = None" and "is_table_row row" and "\<not> visible ta"
  shows "render (Elem ''td'' a' None ta' [Elem t a tx ta cs]) row st
           = Inr (if elem_has_text (Elem t a tx ta cs) True then row
                  else append_text (Some []) row st, st)"
proof -
  from assms(1) have r: "render (Elem t a tx ta cs) row st = Inr (row, st)"
    by (rule unknown_render)
  from assms(3) have h: "\<not> elem_has_text (Elem ''td'' a' None ta' [Elem t a tx ta cs]) False"
    by simp
  from assms(3) have w: "elem_has_text (Elem ''td'' a' None ta' [Elem t a tx ta cs]) True
                           = elem_has_text (Elem t a tx ta cs) True"
    by simp
  from h r assms(2)
  have "process_contents (Elem ''td'' a' None ta' [Elem t a tx ta cs]) row st = Inr (row, st)"
    by (simp add: process_contents.simps and_then_def strip_row del: elem_has_text.simps)
  with w assms(2) show ?thesis
    by (simp add: render.simps [of "''td''"] handler_of_td del: elem_has_text.simps)
qed

lemma unknown_in_title:
  "render (Elem ''title'' a' (Some x) ta' [Elem t a (Some s) None []]) parent st
     = Inr (parent, st\<lparr>title := normalize_text (Some (x @ s))\<rparr>)"
  by (simp add: render.simps [of "''title''"] handler_of_def handlers_def gather_text_def)

text \<open>
  Claim C1, as amended.  An element whose tag has no \<open>_render_<tag>\<close> method raises no
  error and is not rendered: \<open>_render\<close> returns with the parent and the parser fields as
  they were, whatever the element's direct text and children are.  The loop of the
  enclosing \<open>_process_contents\<close> goes on after it, and appends its tail text when text
  handling is active there.  The text inside the element is still read where an enclosing
  handler inspects its subtree without looking at tags: a \<open>td\<close> in a row whose only child
  is such an element, with no visible tail, adds nothing to the row when the element holds
  visible text and an empty cell when it does not, and a \<open>title\<close> gathers the text of such
  a child after its own.
\<close>

theorem unknown_tag_skipped:
  "handler_of t = None \<Longrightarrow>
     render (Elem t a tx ta cs) parent st = Inr (parent, st) \<and>
     process_children (Elem t a tx ta cs # rest) has_text parent st =
       process_children rest has_text
         (if has_text then append_text ta parent st else parent) st \<and>
     (is_table_row row \<and> \<not> visible ta \<longrightarrow>
        render (Elem ''td'' a' None ta' [Elem t a tx ta cs]) row st
          = Inr (if elem_has_text (Elem t a tx ta cs) True then row
                 else append_text (Some []) row st, st)) \<and>
     render (Elem ''title'' a' (Some x) ta' [Elem t a (Some s) None []]) parent st
       = Inr (parent, st\<lparr>title := normalize_text (Some (x @ s))\<rparr>)"
proof (intro conjI impI)
  assume u: "handler_of t = None"
  then show "render (Elem t a tx ta cs) parent st = Inr (parent, st)"
    by (rule unknown_render)
  from u show "process_children (Elem t a tx ta cs # rest) has_text parent st =
       process_children rest has_text
         (if has_text then append_text ta parent st else parent) st"
    by (simp add: unknown_render and_then_def)
  show "render (Elem ''title'' a' (Some x) ta' [Elem t a (Some s) None []]) parent st
       = Inr (parent, st\<lparr>title := normalize_text (Some (x @ s))\<rparr>)"
    by (rule unknown_in_title)
  assume "is_table_row row \<and> \<not> visible ta"
  then have "is_table_row row" and "\<not> visible ta" by (rule conjunct1, rule conjunct2)
  with u show "render (Elem ''td'' a' None ta' [Elem t a tx ta cs]) row st
          = Inr (if elem_has_text (Elem t a tx ta cs) True then row
                 else append_text (Some []) row st, st)"
    by (rule unknown_in_cell)
qed

theorem unknown_tag_skipped_witness:
  "handler_of ''foo'' = None \<and>
   render (Elem ''foo'' [] (Some ''hi'') None []) (PList []) (init None)
     = Inr (PList [], init None) \<and>
   process_children [Elem ''foo'' [] (Some ''hi'') (Some ''yo'') [], Elem ''hr'' [] None None []]
       True (PBlock (TextBlock Paragraph [] [])) (init None)
     = Inr (PBlock (TextBlock Paragraph
                      [\<lparr>plain_text = ''yo'', href = None, annotations = Annotations\<rparr>]
                      [Divider]), init None) \<and>
   render (Elem ''td'' [] None None [Elem ''foo'' [] (Some ''hi'') None []])
       (PBlock (TableRow [])) (init None)
     = Inr (PBlock (TableRow []), init None) \<and>
   render (Elem ''td'' [] None None [Elem ''foo'' [] None None []])
       (PBlock (TableRow [])) (init None)
     = Inr (PBlock (TableRow [TextCell (Some \<lparr>plain_text = [], href = None,
                                                 annotations = Annotations\<rparr>)]), init None) \<and>
   render (Elem ''title'' [] (Some ''A'') None [Elem ''foo'' [] (Some ''B'') None []])
       (PList []) (init None)
     = Inr (PList [], (init None)\<lparr>title := Some ''AB''\<rparr>)"
proof -
  note u = unknown_tag_skipped [OF handler_of_foo]
  from u [of "[]" "Some ''hi''" None "[]" "PList []" "init None"]
  have 1: "render (Elem ''foo'' [] (Some ''hi'') None []) (PList []) (init None)
             = Inr (PList [], init None)"
    by simp
  from u [where a = "[]" and tx = "Some ''hi''" and ta = "Some ''yo''" and cs = "[]"
      and parent = "PBlock (TextBlock Paragraph [] [])" and st = "init None"
      and rest = "[Elem ''hr'' [] None None []]" and has_text = True]
  have 2: "process_children
             [Elem ''foo'' [] (Some ''hi'') (Some ''yo'') [], Elem ''hr'' [] None None []]
             True (PBlock (TextBlock Paragraph [] [])) (init None)
     = Inr (PBlock (TextBlock Paragraph
                      [\<lparr>plain_text = ''yo'', href = None, annotations = Annotations\<rparr>]
                      [Divider]), init None)"
    by (simp add: eval_defs)
  from u [where a = "[]" and tx = "Some ''hi''" and ta = None and cs = "[]"
      and row = "PBlock (TableRow [])" and st = "init None" and a' = "[]" and ta' = None]
  have 3: "render (Elem ''td'' [] None None [Elem ''foo'' [] (Some ''hi'') None []])
       (PBlock (TableRow [])) (init None)
     = Inr (PBlock (TableRow []), init None)"
    by (simp add: visible_def isspace_def is_space_def)
  from u [where a = "[]" and tx = None and ta = None and cs = "[]"
      and row = "PBlock (TableRow [])" and st = "init None" and a' = "[]" and ta' = None]
  have 4: "render (Elem ''td'' [] None None [Elem ''foo'' [] None None []])
       (PBlock (TableRow [])) (init None)
     = Inr (PBlock (TableRow [TextCell (Some \<lparr>plain_text = [], href = None,
                                                 annotations = Annotations\<rparr>)]), init None)"
    by (simp add: append_text_def condense_text_def from_value_def init_def Let_def)
  from u [where a' = "[]" and x = "''A''" and ta' = None and a = "[]" and s = "''B''"
      and parent = "PList []" and st = "init None"]
  have 5: "render (Elem ''title'' [] (Some ''A'') None [Elem ''foo'' [] (Some ''B'') None []])
       (PList []) (init None)
     = Inr (PList [], (init None)\<lparr>title := Some ''AB''\<rparr>)"
    by (simp add: normalize_text_def condense_text_def strip_str_def lstrip_str_def
          rstrip_str_def is_space_def)
  from handler_of_foo 1 2 3 4 5 show ?thesis by simp
qed

text \<open>
  Claim C1 as stated fails on \<open><foo>hi</foo>\<close>: rendering it leaves the content empty,
  while processing its contents into the current parent would add a paragraph "hi".
\<close>

theorem unknown_tag_counterexample:
  "render (Elem ''foo'' [] (Some ''hi'') None []) (PList []) (init None)
     = Inr (PList [], init None) \<and>
   process_contents (Elem ''foo'' [] (Some ''hi'') None []) (PList []) (init None)
     = Inr (PList [TextBlock Paragraph
                    [\<lparr>plain_text = ''hi'', href = None, annotations = Annotations\<rparr>] []],
            init None)"
  by (simp add: render.simps process_contents.simps handler_of_foo and_then_def visible_def
        isspace_def is_space_def append_text_def condense_text_def from_value_def init_def
        lstrip_def rstrip_def lstrip_str_def rstrip_str_def Let_def)

section \<open>The s element\<close>

text \<open>
  Claim C4.  \<open>_render_s\<close> calls \<open>self._render_del(self, elem, parent)\<close>: one argument too
  many, so every \<open>s\<close> element raises a \<open>TypeError\<close> before anything is rendered, where
  \<open>strike\<close> and \<open>del\<close> apply the strikethrough style.
\<close>

theorem render_s_raises:
  "render (Elem ''s'' a tx ta cs) parent st
     = Inl (too_many_arguments, Elem ''s'' a tx ta cs, parent, st)"
  by (simp add: render.simps handler_of_s)

section \<open>Table rows and cells\<close>

text \<open>
  Claim C10.  \<open>_render_tr\<close> loops over \<open>elem.findall("td")\<close>, the direct \<open>td\<close> children:
  rendering a row gives the same result as rendering it with every other child removed,
  so a direct \<open>th\<close> child contributes no cell, and a row without any \<open>td\<close> child is
  appended to the table as a row of zero cells.
\<close>

theorem tr_only_td_children:
  "is_table parent \<Longrightarrow>
     render (Elem ''tr'' a tx ta cs) parent st
       = render (Elem ''tr'' a tx ta (filter (\<lambda>c. etag c = ''td'') cs)) parent st \<and>
     ((\<forall>c \<in> set cs. etag c \<noteq> ''td'') \<longrightarrow>
        render (Elem ''tr'' a tx ta cs) parent st = Inr (append parent (TableRow []), st))"
  by (simp add: render.simps handler_of_tr and_then_def)

theorem tr_only_td_children_witness:
  "is_table (PBlock (Table False [])) \<and>
   render (Elem ''tr'' [] None None
             [Elem ''th'' [] (Some ''A'') None [], Elem ''th'' [] (Some ''B'') None []])
          (PBlock (Table False [])) (init None)
     = Inr (PBlock (Table False [TableRow []]), init None)"
proof -
  have h: "is_table (PBlock (Table False []))" by simp
  from tr_only_td_children [
      where cs = "[Elem ''th'' [] (Some ''A'') None [], Elem ''th'' [] (Some ''B'') None []]"
        and a = "[]" and tx = None and ta = None and st = "init None", OF h, THEN conjunct2]
  show ?thesis using h by simp
qed



section \<open>What every handler preserves\<close>

lemma shape_append [simp]: "shape_of (append p b) = shape_of p"
  by (cases "(p, b)" rule: append.cases) auto

lemma shape_append_parent [simp]: "shape_of (append_parent p q) = shape_of p"
  by (cases q) auto

lemma shape_concat_run [simp]: "shape_of (concat_run p r) = shape_of p"
  by (cases "(p, r)" rule: concat_run.cases) auto

lemma shape_concat_str [simp]: "shape_of (concat_str p s) = shape_of p"
  by (cases "(p, s)" rule: concat_str.cases) auto

lemma shape_append_cell [simp]: "shape_of (append_cell p obj) = shape_of p"
  by (cases "(p, obj)" rule: append_cell.cases) auto

lemma shape_strip [simp]: "shape_of (strip_text_block p) = shape_of p"
  by (cases p rule: strip_text_block.cases) (auto simp: Let_def)

lemma shape_header [simp]: "shape_of (set_has_column_header p) = shape_of p"
  by (cases p rule: set_has_column_header.cases) auto

lemma shape_append_text [simp]: "shape_of (append_text t p st) = shape_of p"
  by (auto simp: append_text_def Let_def split: option.splits)

lemma shape_flush [simp]: "shape_of (flush p lp) = shape_of p"
  by (cases lp) auto

lemma render_shape:
  "render e p st = Inr (p', st') \<Longrightarrow> shape_of p' = shape_of p"
  "process_contents e p st = Inr (p', st') \<Longrightarrow> shape_of p' = shape_of p"
  "process_children cs h p st = Inr (p', st') \<Longrightarrow> shape_of p' = shape_of p"
  "process_list cs k p lp st = Inr (p', st') \<Longrightarrow> shape_of p' = shape_of p"
  "render_cells cs p st = Inr (p', st') \<Longrightarrow> shape_of p' = shape_of p"
proof (induction e p st and e p st and cs h p st and cs k p lp st and cs p st
       arbitrary: p' st' and p' st' and p' st' and p' st' and p' st'
       rule: render_process_contents_process_children_process_list_render_cells.induct)
  case (1 t a tx ta cs parent st)
  then show ?case
    by (auto simp: render.simps and_then_Inr split: option.splits handler.splits if_splits)
next
  case (2 t a tx ta cs parent st)
  then show ?case
    by (auto simp: process_contents.simps and_then_Inr split: if_splits)
next
  case (3 has_text parent st)
  then show ?case by auto
next
  case (4 c cs has_text parent st)
  from "4.prems" obtain p st1 where r: "render c parent st = Inr (p, st1)"
    and rest: "process_children cs has_text
                 (if has_text then append_text (etail c) p st1 else p) st1 = Inr (p', st')"
    by (auto simp: and_then_Inr)
  from "4.IH"(1) [OF r] have "shape_of p = shape_of parent" .
  with "4.IH"(2) [OF rest] show ?case by simp
next
  case (5 k parent list_parent st)
  then show ?case by auto
next
  case (6 c cs k parent list_parent st)
  then show ?case
    by (auto simp: and_then_Inr split: if_splits option.splits)
next
  case (7 row st)
  then show ?case by auto
next
  case (8 td tds row st)
  then show ?case
    by (auto simp: and_then_Inr)
qed

section \<open>Whitespace in code blocks and in paragraphs\<close>

lemma is_code_shape: "is_code p = (shape_of p = SText Code)"
  by (cases p rule: shape_of.cases) auto

lemma is_code_text_block: "is_code p \<Longrightarrow> is_text_block p"
  by (cases p rule: is_code.cases) auto

lemma strip_code: "is_code p \<Longrightarrow> strip_text_block p = p"
  by (cases p rule: strip_text_block.cases) auto

lemma append_text_code:
  "is_code parent \<Longrightarrow>
     append_text (Some s) parent st
       = concat_run parent \<lparr>plain_text = s, href = current_href st,
                             annotations = current_text_style st\<rparr>"
  by (simp add: append_text_def from_value_def is_code_text_block)

lemma append_text_other:
  "is_text_block parent \<Longrightarrow> \<not> is_code parent \<Longrightarrow>
     append_text (Some s) parent st
       = concat_run parent \<lparr>plain_text = condense s, href = current_href st,
                             annotations = current_text_style st\<rparr>"
  by (simp add: append_text_def from_value_def condense_text_def)

lemma contents_into_code:
  assumes c: "is_code parent"
  shows "process_contents (Elem t a tx ta cs) parent st
           = process_children cs (elem_has_text (Elem t a tx ta cs) False)
               (if elem_has_text (Elem t a tx ta cs) False then append_text tx parent st
                else parent) st"
proof -
  let ?has = "elem_has_text (Elem t a tx ta cs) False"
  let ?start = "if ?has then append_text tx parent st else parent"
  let ?r = "process_children cs ?has ?start st"
  from c have tb: "is_text_block parent" by (rule is_code_text_block)
  have pc: "process_contents (Elem t a tx ta cs) parent st
              = and_then ?r (\<lambda>p st1. Inr (strip_text_block p, st1))"
    using tb by (simp add: process_contents.simps del: elem_has_text.simps)
  have sh: "shape_of ?start = shape_of parent" by simp
  show ?thesis
  proof (cases ?r)
    case (Inl x)
    with pc show ?thesis by (simp add: and_then_def del: elem_has_text.simps)
  next
    case (Inr y)
    obtain p st1 where y: "y = (p, st1)" by (cases y)
    from Inr y have "?r = Inr (p, st1)" by simp
    then have "shape_of p = shape_of ?start" by (rule render_shape(3))
    with sh c have "is_code p" by (simp add: is_code_shape del: elem_has_text.simps)
    then have "strip_text_block p = p" by (rule strip_code)
    with pc Inr y show ?thesis by (simp add: and_then_def del: elem_has_text.simps)
  qed
qed

lemma render_pre:
  "render (Elem ''pre'' a tx ta cs) parent st
     = and_then
         (process_children cs (elem_has_text (Elem ''pre'' a tx ta cs) False)
            (if elem_has_text (Elem ''pre'' a tx ta cs) False
             then append_text tx (PBlock (TextBlock Code [] [])) st
             else PBlock (TextBlock Code [] [])) st)
         (\<lambda>b st1. Inr (append_parent parent b, st1))"
proof -
  have "is_code (PBlock (TextBlock Code [] []))" by simp
  from contents_into_code [OF this] show ?thesis
    by (simp add: render.simps [of "''pre''"] handler_of_pre_p del: elem_has_text.simps)
qed

lemma tail_into_code:
  assumes c: "is_code parent" and r: "render c parent st = Inr (p1, st1)"
  shows "is_code p1 \<and>
         process_children (c # cs) True parent st
           = process_children cs True (append_text (etail c) p1 st1) st1 \<and>
         process_children (c # cs) False parent st = process_children cs False p1 st1"
proof -
  from r have "shape_of p1 = shape_of parent" by (rule render_shape(1))
  with c have "is_code p1" by (simp add: is_code_shape)
  with r show ?thesis by (simp add: and_then_def)
qed

lemma text_only_pre_p:
  "visible (Some s) \<Longrightarrow>
     render (Elem ''pre'' a (Some s) ta []) parent st
       = Inr (append parent
                (TextBlock Code
                   [\<lparr>plain_text = s, href = current_href st,
                     annotations = current_text_style st\<rparr>] []), st) \<and>
     render (Elem ''p'' a (Some s) ta []) parent st
       = Inr (append parent
                (TextBlock Paragraph
                   [\<lparr>plain_text = strip_str (condense s), href = current_href st,
                     annotations = current_text_style st\<rparr>] []), st)"
  by (simp add: render.simps process_contents.simps handler_of_pre_p and_then_def append_text_def
        condense_text_def from_value_def Let_def lstrip_def rstrip_def strip_str_def)

lemma blank_pre:
  "\<not> visible tx \<Longrightarrow>
     render (Elem ''pre'' a tx ta []) parent st = Inr (append parent (TextBlock Code [] []), st)"
  by (simp add: render.simps process_contents.simps handler_of_pre_p and_then_def)

text \<open>
  Claim C9 as stated fails on \<open><pre>   </pre>\<close> and on \<open><pre><b>x</b>  <i>y</i></pre>\<close>:
  the first becomes a Code block with no text at all, and the second a Code block with
  the runs "x" and "y" only, without the two spaces that stand between them.
\<close>

theorem pre_whitespace_counterexample:
  "render (Elem ''pre'' [] (Some ''   '') None []) (PList []) (init None)
     = Inr (PList [TextBlock Code [] []], init None) \<and>
   render (Elem ''pre'' [] None None
             [Elem ''b'' [] (Some ''x'') (Some ''  '') [], Elem ''i'' [] (Some ''y'') None []])
          (PList []) (init None)
     = Inr (PList [TextBlock Code
                    [\<lparr>plain_text = ''x'', href = None,
                      annotations = Annotations\<lparr>bold := True\<rparr>\<rparr>,
                     \<lparr>plain_text = ''y'', href = None,
                      annotations = Annotations\<lparr>italic := True\<rparr>\<rparr>] []], init None)"
  by (simp add: eval_defs)

text \<open>
  Claim C9, as amended.  Text appended to a Code block is appended as it is, neither
  condensed nor trimmed, and the block is not trimmed when its element is finished; text
  appended to another text block is condensed first.  So a \<open>pre\<close> element holding only a
  visible text becomes a Code block whose run is that text, character for character, and
  a \<open>p\<close> element holding the same text a Paragraph whose run is the text with every run of
  whitespace condensed to one space and the whitespace at both ends removed.  Whether text
  is appended at all is decided once for each element, in a Code block as elsewhere: its
  direct text and the tails of its children are appended when that text or one of those
  tails is visible, and none of them is appended otherwise.  A \<open>pre\<close> element with no
  children whose text is missing or all whitespace becomes a Code block with no run.
\<close>

theorem code_text_literal:
  "(is_code parent \<longrightarrow>
      append_text (Some s) parent st
        = concat_run parent \<lparr>plain_text = s, href = current_href st,
                              annotations = current_text_style st\<rparr> \<and>
      strip_text_block parent = parent \<and>
      process_contents (Elem t a tx ta cs) parent st
        = process_children cs (elem_has_text (Elem t a tx ta cs) False)
            (if elem_has_text (Elem t a tx ta cs) False then append_text tx parent st
             else parent) st \<and>
      (render c parent st = Inr (p1, st1) \<longrightarrow>
         is_code p1 \<and>
         process_children (c # cs) True parent st
           = process_children cs True (append_text (etail c) p1 st1) st1 \<and>
         process_children (c # cs) False parent st = process_children cs False p1 st1)) \<and>
   (is_text_block parent \<and> \<not> is_code parent \<longrightarrow>
      append_text (Some s) parent st
        = concat_run parent \<lparr>plain_text = condense s, href = current_href st,
                              annotations = current_text_style st\<rparr>) \<and>
   render (Elem ''pre'' a tx ta cs) parent st
     = and_then
         (process_children cs (elem_has_text (Elem ''pre'' a tx ta cs) False)
            (if elem_has_text (Elem ''pre'' a tx ta cs) False
             then append_text tx (PBlock (TextBlock Code [] [])) st
             else PBlock (TextBlock Code [] [])) st)
         (\<lambda>b st1. Inr (append_parent parent b, st1)) \<and>
   (visible (Some s) \<longrightarrow>
      render (Elem ''pre'' a (Some s) ta []) parent st
        = Inr (append parent
                 (TextBlock Code
                    [\<lparr>plain_text = s, href = current_href st,
                      annotations = current_text_style st\<rparr>] []), st) \<and>
      render (Elem ''p'' a (Some s) ta []) parent st
        = Inr (append parent
                 (TextBlock Paragraph
                    [\<lparr>plain_text = strip_str (condense s), href = current_href st,
                      annotations = current_text_style st\<rparr>] []), st)) \<and>
   (\<not> visible tx \<longrightarrow>
      render (Elem ''pre'' a tx ta []) parent st
        = Inr (append parent (TextBlock Code [] []), st))"
proof (intro conjI impI)
  assume c: "is_code parent"
  then show "append_text (Some s) parent st
        = concat_run parent \<lparr>plain_text = s, href = current_href st,
                              annotations = current_text_style st\<rparr>"
    by (rule append_text_code)
  from c show "strip_text_block parent = parent" by (rule strip_code)
  from c show "process_contents (Elem t a tx ta cs) parent st
        = process_children cs (elem_has_text (Elem t a tx ta cs) False)
            (if elem_has_text (Elem t a tx ta cs) False then append_text tx parent st
             else parent) st"
    by (rule contents_into_code)
  assume r: "render c parent st = Inr (p1, st1)"
  note t = tail_into_code [OF c r, of cs]
  from t show "is_code p1" by (rule conjunct1)
  from t show "process_children (c # cs) True parent st
           = process_children cs True (append_text (etail c) p1 st1) st1"
    by (simp only:)
  from t show "process_children (c # cs) False parent st = process_children cs False p1 st1"
    by (simp only:)
next
  assume "is_text_block parent \<and> \<not> is_code parent"
  then have "is_text_block parent" and "\<not> is_code parent" by (rule conjunct1, rule conjunct2)
  then show "append_text (Some s) parent st
        = concat_run parent \<lparr>plain_text = condense s, href = current_href st,
                              annotations = current_text_style st\<rparr>"
    by (rule append_text_other)
next
  show "render (Elem ''pre'' a tx ta cs) parent st
     = and_then
         (process_children cs (elem_has_text (Elem ''pre'' a tx ta cs) False)
            (if elem_has_text (Elem ''pre'' a tx ta cs) False
             then append_text tx (PBlock (TextBlock Code [] [])) st
             else PBlock (TextBlock Code [] [])) st)
         (\<lambda>b st1. Inr (append_parent parent b, st1))"
    by (rule render_pre)
next
  assume v: "visible (Some s)"
  from text_only_pre_p [OF v]
  show "render (Elem ''pre'' a (Some s) ta []) parent st
        = Inr (append parent
                 (TextBlock Code
                    [\<lparr>plain_text = s, href = current_href st,
                      annotations = current_text_style st\<rparr>] []), st)"
    by (rule conjunct1)
  from text_only_pre_p [OF v]
  show "render (Elem ''p'' a (Some s) ta []) parent st
        = Inr (append parent
                 (TextBlock Paragraph
                    [\<lparr>plain_text = strip_str (condense s), href = current_href st,
                      annotations = current_text_style st\<rparr>] []), st)"
    by (rule conjunct2)
next
  assume "\<not> visible tx"
  then show "render (Elem ''pre'' a tx ta []) parent st
        = Inr (append parent (TextBlock Code [] []), st)"
    by (rule blank_pre)
qed

theorem code_text_literal_witness:
  "visible (Some ''  two  spaces  '') \<and>
   render (Elem ''pre'' [] (Some ''  two  spaces  '') None []) (PList []) (init None)
     = Inr (PList [TextBlock Code
                    [\<lparr>plain_text = ''  two  spaces  '', href = None,
                      annotations = Annotations\<rparr>] []], init None) \<and>
   render (Elem ''p'' [] (Some ''  two  spaces  '') None []) (PList []) (init None)
     = Inr (PList [TextBlock Paragraph
                    [\<lparr>plain_text = ''two spaces'', href = None,
                      annotations = Annotations\<rparr>] []], init None) \<and>
   \<not> visible (Some ''   '') \<and>
   render (Elem ''pre'' [] (Some ''   '') None []) (PList []) (init None)
     = Inr (PList [TextBlock Code [] []], init None) \<and>
   is_code (PBlock (TextBlock Code [] [])) \<and>
   append_text (Some '' a  b '') (PBlock (TextBlock Code [] [])) (init None)
     = PBlock (TextBlock Code
                 [\<lparr>plain_text = '' a  b '', href = None, annotations = Annotations\<rparr>] []) \<and>
   is_text_block (PBlock (TextBlock Paragraph [] [])) \<and>
   \<not> is_code (PBlock (TextBlock Paragraph [] [])) \<and>
   append_text (Some '' a  b '') (PBlock (TextBlock Paragraph [] [])) (init None)
     = PBlock (TextBlock Paragraph
                 [\<lparr>plain_text = '' a b '', href = None, annotations = Annotations\<rparr>] []) \<and>
   render (Elem ''hr'' [] None (Some ''  '') []) (PBlock (TextBlock Code [] [])) (init None)
     = Inr (PBlock (TextBlock Code [] [Divider]), init None) \<and>
   process_children [Elem ''hr'' [] None (Some ''  '') []] True
       (PBlock (TextBlock Code [] [])) (init None)
     = Inr (PBlock (TextBlock Code
                      [\<lparr>plain_text = ''  '', href = None, annotations = Annotations\<rparr>]
                      [Divider]), init None) \<and>
   process_children [Elem ''hr'' [] None (Some ''  '') []] False
       (PBlock (TextBlock Code [] [])) (init None)
     = Inr (PBlock (TextBlock Code [] [Divider]), init None)"
proof -
  have v: "visible (Some ''  two  spaces  '')"
    by (simp add: visible_def isspace_def is_space_def)
  have b: "\<not> visible (Some ''   '')"
    by (simp add: visible_def isspace_def is_space_def)
  have hr: "render (Elem ''hr'' [] None (Some ''  '') []) (PBlock (TextBlock Code [] []))
              (init None)
            = Inr (PBlock (TextBlock Code [] [Divider]), init None)"
    by (simp add: eval_defs)
  note vis = code_text_literal [where s = "''  two  spaces  ''" and a = "[]" and ta = None
      and parent = "PList []" and st = "init None",
      THEN conjunct2, THEN conjunct2, THEN conjunct2, THEN conjunct1, rule_format, OF v]
  from vis have 1:
    "render (Elem ''pre'' [] (Some ''  two  spaces  '') None []) (PList []) (init None)
     = Inr (PList [TextBlock Code
                    [\<lparr>plain_text = ''  two  spaces  '', href = None,
                      annotations = Annotations\<rparr>] []], init None)"
    by (simp add: init_def)
  from vis have 2:
    "render (Elem ''p'' [] (Some ''  two  spaces  '') None []) (PList []) (init None)
     = Inr (PList [TextBlock Paragraph
                    [\<lparr>plain_text = ''two spaces'', href = None,
                      annotations = Annotations\<rparr>] []], init None)"
    by (simp add: init_def strip_str_def lstrip_str_def rstrip_str_def is_space_def)
  from code_text_literal [where tx = "Some ''   ''" and a = "[]" and ta = None
      and parent = "PList []" and st = "init None",
      THEN conjunct2, THEN conjunct2, THEN conjunct2, THEN conjunct2, rule_format, OF b]
  have 3: "render (Elem ''pre'' [] (Some ''   '') None []) (PList []) (init None)
     = Inr (PList [TextBlock Code [] []], init None)"
    by simp
  have c: "is_code (PBlock (TextBlock Code [] []))" by simp
  note code = code_text_literal [where parent = "PBlock (TextBlock Code [] [])"
      and s = "'' a  b ''" and st = "init None" and c = "Elem ''hr'' [] None (Some ''  '') []"
      and cs = "[]" and ?p1.0 = "PBlock (TextBlock Code [] [Divider])" and ?st1.0 = "init None",
      THEN conjunct1, rule_format, OF c]
  from code have 4:
    "append_text (Some '' a  b '') (PBlock (TextBlock Code [] [])) (init None)
     = PBlock (TextBlock Code
                 [\<lparr>plain_text = '' a  b '', href = None, annotations = Annotations\<rparr>] [])"
    by (simp add: init_def)
  from code [THEN conjunct2, THEN conjunct2, THEN conjunct2, rule_format, OF hr]
  have 5: "process_children [Elem ''hr'' [] None (Some ''  '') []] True
       (PBlock (TextBlock Code [] [])) (init None)
     = Inr (PBlock (TextBlock Code
                      [\<lparr>plain_text = ''  '', href = None, annotations = Annotations\<rparr>]
                      [Divider]), init None)"
    and 6: "process_children [Elem ''hr'' [] None (Some ''  '') []] False
       (PBlock (TextBlock Code [] [])) (init None)
     = Inr (PBlock (TextBlock Code [] [Divider]), init None)"
    by (simp_all add: append_text_def from_value_def init_def)
  have o: "is_text_block (PBlock (TextBlock Paragraph [] [])) \<and>
           \<not> is_code (PBlock (TextBlock Paragraph [] []))" by simp
  from code_text_literal [where parent = "PBlock (TextBlock Paragraph [] [])"
      and s = "'' a  b ''" and st = "init None",
      THEN conjunct2, THEN conjunct1, rule_format, OF o]
  have 7: "append_text (Some '' a  b '') (PBlock (TextBlock Paragraph [] [])) (init None)
     = PBlock (TextBlock Paragraph
                 [\<lparr>plain_text = '' a b '', href = None, annotations = Annotations\<rparr>] [])"
    by (simp add: init_def is_space_def)
  from v b hr 1 2 3 4 5 6 7 show ?thesis by simp
qed

section \<open>Structure errors\<close>

lemma handler_of_td_D: "handler_of t = Some H_td \<Longrightarrow> t = ''td'' \<or> t = ''th''"
  unfolding handler_of_def by (drule map_of_SomeD) (auto simp: handlers_def)

lemma handler_of_thead_D: "handler_of t = Some H_thead \<Longrightarrow> t = ''thead''"
  unfolding handler_of_def by (drule map_of_SomeD) (auto simp: handlers_def)

lemma handler_of_tr_D: "handler_of t = Some H_tr \<Longrightarrow> t = ''tr''"
  unfolding handler_of_def by (drule map_of_SomeD) (auto simp: handlers_def)

lemma not_structure [simp]: "\<not> structure_error too_many_arguments"
  by (simp add: structure_error_def too_many_arguments_def invalid_parent_def)

lemma misparented_raises:
  "misparented e p \<Longrightarrow> render e p st = Inl (parent_error e, e, p, st)"
  by (cases e)
     (auto simp: misparented_def parent_error_def render.simps handler_of_tr handler_of_thead
        handler_of_td)

text \<open>
  No call recovers from an error: what a call of \<open>_render\<close> raises is what every call
  around it raises.
\<close>

lemma visits_raise:
  "render_visits e p st v \<Longrightarrow>
     render (fst v) (fst (snd v)) (snd (snd v)) = Inl x \<Longrightarrow> render e p st = Inl x"
  "contents_visits e p st v \<Longrightarrow>
     render (fst v) (fst (snd v)) (snd (snd v)) = Inl x \<Longrightarrow> process_contents e p st = Inl x"
  "children_visits cs h p st v \<Longrightarrow>
     render (fst v) (fst (snd v)) (snd (snd v)) = Inl x \<Longrightarrow> process_children cs h p st = Inl x"
  "list_visits cs k p lp st v \<Longrightarrow>
     render (fst v) (fst (snd v)) (snd (snd v)) = Inl x \<Longrightarrow> process_list cs k p lp st = Inl x"
  "cells_visits cs p st v \<Longrightarrow>
     render (fst v) (fst (snd v)) (snd (snd v)) = Inl x \<Longrightarrow> render_cells cs p st = Inl x"
proof (induction rule: render_visits_contents_visits_children_visits_list_visits_cells_visits.inducts)
  case (contents_plain t a tx ta cs parent st v)
  then show ?case
    by (simp add: process_contents.simps and_then_def del: elem_has_text.simps)
next
  case (contents_text t a tx ta cs parent st v)
  then show ?case
    by (simp add: process_contents.simps and_then_def del: elem_has_text.simps)
next
  case (contents_wrapped t a tx ta cs parent st v)
  then show ?case
    by (simp add: process_contents.simps and_then_def del: elem_has_text.simps)
qed (simp_all add: render.simps and_then_def del: elem_has_text.simps)

text \<open>
  An error comes from a call that rendering has made, and is one of the four raised by
  \<open>_render_s\<close> and by the parent checks.
\<close>

lemma raise_visited:
  "render e p st = Inl (err, v) \<Longrightarrow> render_visits e p st v \<and> raised_at err v"
  "process_contents e p st = Inl (err, v) \<Longrightarrow> contents_visits e p st v \<and> raised_at err v"
  "process_children cs h p st = Inl (err, v) \<Longrightarrow> children_visits cs h p st v \<and> raised_at err v"
  "process_list cs k p lp st = Inl (err, v) \<Longrightarrow> list_visits cs k p lp st v \<and> raised_at err v"
  "render_cells cs p st = Inl (err, v) \<Longrightarrow> cells_visits cs p st v \<and> raised_at err v"
proof (induction e p st and e p st and cs h p st and cs k p lp st and cs p st
       rule: render_process_contents_process_children_process_list_render_cells.induct)
  case (1 t a tx ta cs parent st)
  show ?case
  proof (cases "handler_of t")
    case None
    with "1.prems" show ?thesis by (simp add: render.simps)
  next
    case (Some h)
    note IH = "1.IH" [OF Some]
    show ?thesis
    proof (cases h)
      case H_a
      with "1.prems" Some have
        "process_contents (Elem t a tx ta cs) parent (st\<lparr>current_href := map_of a ''href''\<rparr>)
           = Inl (err, v)"
        by (auto simp: render.simps and_then_Inl)
      from IH(1) [OF H_a this] Some H_a show ?thesis by (auto intro: via_a)
    next
      case (H_style f)
      with "1.prems" Some have
        "process_contents (Elem t a tx ta cs) parent
           (st\<lparr>current_text_style := set_flag f True (current_text_style st)\<rparr>) = Inl (err, v)"
        by (auto simp: render.simps and_then_Inl)
      from IH(2) [OF H_style this] Some H_style show ?thesis by (auto intro: via_style)
    next
      case H_s
      with "1.prems" Some show ?thesis
        by (auto simp: render.simps raised_at_def intro: here)
    next
      case (H_block k)
      with "1.prems" Some have
        "process_contents (Elem t a tx ta cs) (PBlock (TextBlock k [] [])) st = Inl (err, v)"
        by (auto simp: render.simps and_then_Inl)
      from IH(3) [OF H_block this] Some H_block show ?thesis by (auto intro: via_block)
    next
      case H_transparent
      with "1.prems" Some have "process_contents (Elem t a tx ta cs) parent st = Inl (err, v)"
        by (simp add: render.simps)
      from IH(4) [OF H_transparent this] Some H_transparent show ?thesis
        by (auto intro: via_transparent)
    next
      case (H_list k)
      with "1.prems" Some have "process_list cs k parent None st = Inl (err, v)"
        by (simp add: render.simps)
      from IH(5) [OF H_list this] Some H_list show ?thesis by (auto intro: via_list)
    next
      case H_table
      with "1.prems" Some have
        "process_contents (Elem t a tx ta cs) (PBlock (Table False [])) st = Inl (err, v)"
        by (auto simp: render.simps and_then_Inl split: if_splits)
      from IH(6) [OF H_table this] Some H_table show ?thesis by (auto intro: via_table)
    next
      case H_td
      show ?thesis
      proof (cases "is_table_row parent")
        case False
        with "1.prems" Some H_td handler_of_td_D [of t] show ?thesis
          by (auto simp: render.simps raised_at_def misparented_def parent_error_def
                intro: here)
      next
        case True
        then have c: "\<not> \<not> is_table_row parent" by simp
        from True "1.prems" Some H_td have ht: "elem_has_text (Elem t a tx ta cs) True"
          and sub: "process_contents (Elem t a tx ta cs) parent st = Inl (err, v)"
          by (auto simp: render.simps simp del: elem_has_text.simps split: if_splits)
        from IH(7) [OF H_td c ht sub] Some H_td True ht show ?thesis
          by (auto intro: via_td simp del: elem_has_text.simps)
      qed
    next
      case H_thead
      show ?thesis
      proof (cases "is_table parent")
        case False
        with "1.prems" Some H_thead handler_of_thead_D [of t] show ?thesis
          by (auto simp: render.simps raised_at_def misparented_def parent_error_def
                intro: here)
      next
        case True
        then have c: "\<not> \<not> is_table parent" by simp
        from True "1.prems" Some H_thead have
          "process_contents (Elem t a tx ta cs) (set_has_column_header parent) st = Inl (err, v)"
          by (simp add: render.simps)
        from IH(8) [OF H_thead c this] Some H_thead True show ?thesis
          by (auto intro: via_thead)
      qed
    next
      case H_tr
      show ?thesis
      proof (cases "is_table parent")
        case False
        with "1.prems" Some H_tr handler_of_tr_D [of t] show ?thesis
          by (auto simp: render.simps raised_at_def misparented_def parent_error_def
                intro: here)
      next
        case True
        then have c: "\<not> \<not> is_table parent" by simp
        from True "1.prems" Some H_tr have
          "render_cells (filter (\<lambda>c. etag c = ''td'') cs) (PBlock (TableRow [])) st
             = Inl (err, v)"
          by (auto simp: render.simps and_then_Inl)
        from IH(9) [OF H_tr c this] Some H_tr True show ?thesis
          by (auto intro: via_tr)
      qed
    qed (use "1.prems" Some in \<open>auto simp: render.simps split: option.splits if_splits\<close>)
  qed
next
  case (2 t a tx ta cs parent st)
  show ?case
  proof (cases "elem_has_text (Elem t a tx ta cs) False")
    case False
    with "2.prems" have "process_children cs False parent st = Inl (err, v)"
      by (auto simp: process_contents.simps and_then_Inl simp del: elem_has_text.simps)
    from "2.IH"(1) [OF False this] False show ?thesis
      by (auto intro: contents_plain simp del: elem_has_text.simps)
  next
    case True
    then have nn: "\<not> \<not> elem_has_text (Elem t a tx ta cs) False" by simp
    show ?thesis
    proof (cases "is_text_block parent \<or> is_table_row parent")
      case tb: True
      with "2.prems" True have
        "process_children cs True (append_text tx parent st) st = Inl (err, v)"
        by (auto simp: process_contents.simps and_then_Inl simp del: elem_has_text.simps)
      from "2.IH"(2) [OF nn tb this] True tb show ?thesis
        by (auto intro: contents_text simp del: elem_has_text.simps)
    next
      case tb: False
      with "2.prems" True have
        "process_children cs True (append_text tx (PBlock (TextBlock Paragraph [] [])) st) st
           = Inl (err, v)"
        by (auto simp: process_contents.simps and_then_Inl simp del: elem_has_text.simps)
      from "2.IH"(3) [OF nn tb this] True tb show ?thesis
        by (auto intro: contents_wrapped simp del: elem_has_text.simps)
    qed
  qed
next
  case (3 has_text parent st)
  then show ?case by simp
next
  case (4 c cs has_text parent st)
  from "4.prems" consider
    (first) "render c parent st = Inl (err, v)"
  | (later) p st1 where "render c parent st = Inr (p, st1)"
      "process_children cs has_text (if has_text then append_text (etail c) p st1 else p) st1
         = Inl (err, v)"
    by (auto simp: and_then_Inl)
  then show ?case
  proof cases
    case first
    from "4.IH"(1) [OF first] show ?thesis by (auto intro: child_first)
  next
    case later
    from "4.IH"(2) [OF later(2)] later(1) show ?thesis by (auto intro: child_later)
  qed
next
  case (5 k parent list_parent st)
  then show ?case by simp
next
  case (6 c cs k parent list_parent st)
  show ?case
  proof (cases "etag c = ''li''")
    case True
    with "6.prems" consider
      (first) "render c (PBlock (TextBlock k [] [])) st = Inl (err, v)"
    | (later) item st1 where "render c (PBlock (TextBlock k [] [])) st = Inr (item, st1)"
        "process_list cs k (flush parent list_parent) (Some item) st1 = Inl (err, v)"
      by (auto simp: and_then_Inl)
    then show ?thesis
    proof cases
      case first
      from "6.IH"(1) [OF True first] True show ?thesis by (auto intro: list_li)
    next
      case later
      from "6.IH"(2) [OF True later(2)] later(1) True show ?thesis
        by (auto intro: list_li_later)
    qed
  next
    case False
    show ?thesis
    proof (cases list_parent)
      case None
      with False "6.prems" consider
        (first) "render c parent st = Inl (err, v)"
      | (later) p st1 where "render c parent st = Inr (p, st1)"
          "process_list cs k p None st1 = Inl (err, v)"
        by (auto simp: and_then_Inl)
      then show ?thesis
      proof cases
        case first
        from "6.IH"(3) [OF False None first] False None show ?thesis
          by (auto intro: list_outer)
      next
        case later
        from "6.IH"(4) [OF False None later(2)] later(1) False None show ?thesis
          by (auto intro: list_outer_later)
      qed
    next
      case (Some lp)
      with False "6.prems" consider
        (first) "render c lp st = Inl (err, v)"
      | (later) lp1 st1 where "render c lp st = Inr (lp1, st1)"
          "process_list cs k parent (Some lp1) st1 = Inl (err, v)"
        by (auto simp: and_then_Inl)
      then show ?thesis
      proof cases
        case first
        from "6.IH"(5) [OF False Some first] False Some show ?thesis
          by (auto intro: list_item)
      next
        case later
        from "6.IH"(6) [OF False Some later(2)] later(1) False Some show ?thesis
          by (auto intro: list_item_later)
      qed
    qed
  qed
next
  case (7 row st)
  then show ?case by simp
next
  case (8 td tds row st)
  from "8.prems" consider
    (first) "render td row st = Inl (err, v)"
  | (later) p st1 where "render td row st = Inr (p, st1)" "render_cells tds p st1 = Inl (err, v)"
    by (auto simp: and_then_Inl)
  then show ?case
  proof cases
    case first
    from "8.IH"(1) [OF first] show ?thesis by (auto intro: cell_first)
  next
    case later
    from "8.IH"(2) [OF later(2)] later(1) show ?thesis by (auto intro: cell_later)
  qed
qed

lemma structure_error_parent_error:
  "misparented e p \<Longrightarrow> structure_error (parent_error e)"
  by (auto simp: misparented_def parent_error_def structure_error_def)

text \<open>
  Claim C5.  Rendering raises a structure error exactly when it calls \<open>_render\<close> on a
  \<open>thead\<close> or \<open>tr\<close> element with a parent that is not a table, or on a \<open>td\<close> or \<open>th\<close>
  element with a parent that is not a row.  Such a call raises at once, with the parent
  and the parser fields as it received them, so nothing is produced for that subtree;
  whatever rendering has made that call raises the same error, with that element,
  parent and fields: no caller recovers.  Conversely a structure error names a call that
  rendering has made, on an element of one of the four tags with a parent of the wrong
  type, and is the error of that tag.
\<close>

theorem structure_error_iff_misparented:
  "(misparented e p \<longrightarrow> render e p st = Inl (parent_error e, e, p, st)) \<and>
   (render_visits e p st (e', p', st') \<and> misparented e' p' \<longrightarrow>
      render e p st = Inl (parent_error e', e', p', st') \<and> structure_error (parent_error e')) \<and>
   (render e p st = Inl (err, e', p', st') \<and> structure_error err \<longrightarrow>
      render_visits e p st (e', p', st') \<and> misparented e' p' \<and> err = parent_error e')"
proof (intro conjI impI)
  assume "misparented e p"
  then show "render e p st = Inl (parent_error e, e, p, st)" by (rule misparented_raises)
next
  assume a: "render_visits e p st (e', p', st') \<and> misparented e' p'"
  then have "render e' p' st' = Inl (parent_error e', e', p', st')"
    by (simp add: misparented_raises)
  with a show "render e p st = Inl (parent_error e', e', p', st')"
    using visits_raise(1) [of e p st "(e', p', st')"] by simp
next
  assume "render_visits e p st (e', p', st') \<and> misparented e' p'"
  then show "structure_error (parent_error e')" by (blast intro: structure_error_parent_error)
next
  assume a: "render e p st = Inl (err, e', p', st') \<and> structure_error err"
  with raise_visited(1) [of e p st err "(e', p', st')"]
  have v: "render_visits e p st (e', p', st')" and r: "raised_at err (e', p', st')" by simp_all
  from v show "render_visits e p st (e', p', st')" .
  from r a show "misparented e' p'" by (auto simp: raised_at_def)
  from r a show "err = parent_error e'" by (auto simp: raised_at_def)
qed

theorem structure_error_iff_misparented_witness:
  "render (Elem ''th'' [] None None []) (PBlock (Table False [])) (init None)
     = Inl (invalid_parent ''td'', Elem ''th'' [] None None [], PBlock (Table False []),
            init None) \<and>
   render (Elem ''body'' [] None None
             [Elem ''hr'' [] None None [], Elem ''tr'' [] None None []])
          (PList []) (init None)
     = Inl (invalid_parent ''tr'', Elem ''tr'' [] None None [], PList [Divider], init None) \<and>
   render_visits
     (Elem ''body'' [] None None [Elem ''hr'' [] None None [], Elem ''tr'' [] None None []])
     (PList []) (init None) (Elem ''tr'' [] None None [], PList [Divider], init None)"
proof -
  have m1: "misparented (Elem ''th'' [] None None []) (PBlock (Table False []))"
    by (simp add: misparented_def)
  have m2: "misparented (Elem ''tr'' [] None None []) (PList [Divider])"
    by (simp add: misparented_def)
  have hr: "render (Elem ''hr'' [] None None []) (PList []) (init None)
              = Inr (PList [Divider], init None)"
    by (simp add: eval_defs)
  have v: "render_visits
     (Elem ''body'' [] None None [Elem ''hr'' [] None None [], Elem ''tr'' [] None None []])
     (PList []) (init None) (Elem ''tr'' [] None None [], PList [Divider], init None)"
    apply (rule via_transparent)
     apply (simp add: handler_of_def handlers_def)
    apply (rule contents_plain)
     apply (simp add: visible_def)
    apply (rule child_later [OF hr])
    apply simp
    apply (rule child_first)
    apply (rule here)
    done
  from structure_error_iff_misparented [where e = "Elem ''th'' [] None None []"
      and p = "PBlock (Table False [])" and st = "init None", THEN conjunct1, rule_format, OF m1]
  have 1: "render (Elem ''th'' [] None None []) (PBlock (Table False [])) (init None)
     = Inl (invalid_parent ''td'', Elem ''th'' [] None None [], PBlock (Table False []),
            init None)"
    by (simp add: parent_error_def)
  from structure_error_iff_misparented [THEN conjunct2, THEN conjunct1, rule_format,
      OF conjI [OF v m2]]
  have 2: "render (Elem ''body'' [] None None
             [Elem ''hr'' [] None None [], Elem ''tr'' [] None None []])
          (PList []) (init None)
     = Inl (invalid_parent ''tr'', Elem ''tr'' [] None None [], PList [Divider], init None)"
    by (simp add: parent_error_def)
  from structure_error_iff_misparented [THEN conjunct2, THEN conjunct2, rule_format,
      of _ _ _ "invalid_parent ''tr''", OF conjI [OF 2]]
  have 3: "render_visits
     (Elem ''body'' [] None None [Elem ''hr'' [] None None [], Elem ''tr'' [] None None []])
     (PList []) (init None) (Elem ''tr'' [] None None [], PList [Divider], init None)"
    by (simp add: structure_error_def)
  from 1 2 3 show ?thesis by simp
qed

section \<open>Style tags\<close>

text \<open>
  Claim C2, as amended.  For each style tag other than \<open>s\<close>, rendering sets the flag of
  the tag, processes the contents into the same parent and then sets the flag to false,
  whatever its value was before: after the element the flag is off.
\<close>

theorem style_tag_sets_then_clears:
  "(t, f) \<in> {(''b'', FBold), (''strong'', FBold), (''i'', FItalic), (''em'', FItalic),
             (''u'', FUnderline), (''ins'', FUnderline), (''del'', FStrikethrough),
             (''strike'', FStrikethrough), (''code'', FCode), (''kbd'', FCode),
             (''samp'', FCode), (''var'', FCode)} \<Longrightarrow>
     render (Elem t a tx ta cs) parent st
       = and_then (process_contents (Elem t a tx ta cs) parent
                     (st\<lparr>current_text_style := set_flag f True (current_text_style st)\<rparr>))
           (\<lambda>p st1. Inr (p, st1\<lparr>current_text_style :=
                                    set_flag f False (current_text_style st1)\<rparr>)) \<and>
     (\<forall>p' st'. render (Elem t a tx ta cs) parent st = Inr (p', st') \<longrightarrow>
        \<not> get_flag f (current_text_style st'))"
proof -
  assume "(t, f) \<in> {(''b'', FBold), (''strong'', FBold), (''i'', FItalic), (''em'', FItalic),
             (''u'', FUnderline), (''ins'', FUnderline), (''del'', FStrikethrough),
             (''strike'', FStrikethrough), (''code'', FCode), (''kbd'', FCode),
             (''samp'', FCode), (''var'', FCode)}"
  then have h: "handler_of t = Some (H_style f)"
    by (elim insertE emptyE; simp add: handler_of_def handlers_def)
  have g: "\<not> get_flag f (set_flag f False s)" for s
    by (cases f) auto
  from h show ?thesis
    by (auto simp: render.simps and_then_Inr g)
qed

theorem style_tag_sets_then_clears_witness:
  "render (Elem ''b'' [] (Some ''X'') None []) (PBlock (TextBlock Paragraph [] []))
          ((init None)\<lparr>current_text_style := Annotations\<lparr>bold := True\<rparr>\<rparr>)
     = Inr (PBlock (TextBlock Paragraph
              [\<lparr>plain_text = ''X'', href = None, annotations = Annotations\<lparr>bold := True\<rparr>\<rparr>]
              []),
            init None)"
proof -
  have h: "(''b'', FBold) \<in> {(''b'', FBold), (''strong'', FBold), (''i'', FItalic),
             (''em'', FItalic), (''u'', FUnderline), (''ins'', FUnderline),
             (''del'', FStrikethrough), (''strike'', FStrikethrough), (''code'', FCode),
             (''kbd'', FCode), (''samp'', FCode), (''var'', FCode)}"
    by simp
  from style_tag_sets_then_clears [OF h, THEN conjunct1]
  show ?thesis by (simp add: eval_base)
qed

text \<open>
  Claim C2 as stated fails on \<open><b>X<b>Y</b>Z</b>\<close>: the inner \<open>b\<close> clears the flag on
  exit, so "Z", still inside the outer \<open>b\<close>, is not bold.
\<close>

theorem nested_style_counterexample:
  "render (Elem ''b'' [] (Some ''X'') None [Elem ''b'' [] (Some ''Y'') (Some ''Z'') []])
          (PBlock (TextBlock Paragraph [] [])) (init None)
     = Inr (PBlock (TextBlock Paragraph
              [\<lparr>plain_text = ''X'', href = None, annotations = Annotations\<lparr>bold := True\<rparr>\<rparr>,
               \<lparr>plain_text = ''Y'', href = None, annotations = Annotations\<lparr>bold := True\<rparr>\<rparr>,
               \<lparr>plain_text = ''Z'', href = None, annotations = Annotations\<rparr>] []),
            init None)"
  by (simp add: eval_defs)

section \<open>No empty table in the output\<close>

lemma ok_append [simp]: "building_ok p \<Longrightarrow> tables_ok b \<Longrightarrow> building_ok (append p b)"
  by (cases "(p, b)" rule: append.cases) auto

lemma ok_append_cell [simp]: "building_ok p \<Longrightarrow> building_ok (append_cell p obj)"
  by (cases "(p, obj)" rule: append_cell.cases) auto

lemma ok_concat_run [simp]: "building_ok p \<Longrightarrow> building_ok (concat_run p r)"
  by (cases "(p, r)" rule: concat_run.cases) auto

lemma ok_concat_str [simp]: "building_ok p \<Longrightarrow> building_ok (concat_str p s)"
  by (cases "(p, s)" rule: concat_str.cases) auto

lemma ok_strip [simp]: "building_ok p \<Longrightarrow> building_ok (strip_text_block p)"
  by (cases p rule: strip_text_block.cases) (auto simp: Let_def)

lemma ok_header [simp]: "building_ok p \<Longrightarrow> building_ok (set_has_column_header p)"
  by (cases p rule: set_has_column_header.cases) auto

lemma ok_append_text [simp]: "building_ok p \<Longrightarrow> building_ok (append_text t p st)"
  by (auto simp: append_text_def Let_def split: option.splits)

lemma ok_append_parent:
  "building_ok p \<Longrightarrow> building_ok q \<Longrightarrow> shape_of q = STable \<longrightarrow> 0 < parent_width q
     \<Longrightarrow> building_ok (append_parent p q)"
  by (cases q rule: shape_of.cases) auto

lemma ok_append_text_block [simp]:
  "building_ok p \<Longrightarrow> building_ok q \<Longrightarrow> shape_of q = SText k \<Longrightarrow> building_ok (append_parent p q)"
  by (rule ok_append_parent) auto

lemma ok_append_row [simp]:
  "building_ok p \<Longrightarrow> building_ok q \<Longrightarrow> shape_of q = SRow \<Longrightarrow> building_ok (append_parent p q)"
  by (rule ok_append_parent) auto

lemma ok_append_table [simp]:
  "building_ok p \<Longrightarrow> building_ok q \<Longrightarrow> 0 < parent_width q \<Longrightarrow> building_ok (append_parent p q)"
  by (rule ok_append_parent) auto

lemma ok_flush [simp]: "building_ok p \<Longrightarrow> item_ok lp \<Longrightarrow> building_ok (flush p lp)"
  by (cases lp) auto

lemma render_ok:
  "render e p st = Inr (p', st') \<Longrightarrow> building_ok p \<Longrightarrow> building_ok p'"
  "process_contents e p st = Inr (p', st') \<Longrightarrow> building_ok p \<Longrightarrow> building_ok p'"
  "process_children cs h p st = Inr (p', st') \<Longrightarrow> building_ok p \<Longrightarrow> building_ok p'"
  "process_list cs k p lp st = Inr (p', st') \<Longrightarrow> building_ok p \<Longrightarrow> item_ok lp \<Longrightarrow> building_ok p'"
  "render_cells cs p st = Inr (p', st') \<Longrightarrow> building_ok p \<Longrightarrow> building_ok p'"
proof (induction e p st and e p st and cs h p st and cs k p lp st and cs p st
       arbitrary: p' st' and p' st' and p' st' and p' st' and p' st'
       rule: render_process_contents_process_children_process_list_render_cells.induct)
  case (1 t a tx ta cs parent st)
  show ?case
  proof (cases "handler_of t")
    case None
    with "1.prems" show ?thesis by (simp add: render.simps)
  next
    case (Some h)
    note IH = "1.IH" [OF Some]
    show ?thesis
    proof (cases h)
      case H_a
      with "1.prems" Some IH(1) [OF H_a] show ?thesis
        by (auto simp: render.simps and_then_Inr)
    next
      case (H_style f)
      with "1.prems" Some IH(2) [OF H_style] show ?thesis
        by (auto simp: render.simps and_then_Inr)
    next
      case (H_block k)
      with "1.prems" Some obtain b where
        b: "process_contents (Elem t a tx ta cs) (PBlock (TextBlock k [] [])) st = Inr (b, st')"
        and p': "p' = append_parent parent b"
        by (auto simp: render.simps and_then_Inr)
      from IH(3) [OF H_block b] have "building_ok b" by simp
      moreover from render_shape(2) [OF b] have "shape_of b = SText k" by simp
      ultimately show ?thesis using p' "1.prems" by simp
    next
      case H_transparent
      with "1.prems" Some IH(4) [OF H_transparent] show ?thesis
        by (auto simp: render.simps)
    next
      case (H_list k)
      with "1.prems" Some IH(5) [OF H_list] show ?thesis
        by (auto simp: render.simps)
    next
      case H_table
      with "1.prems" Some obtain b where
        b: "process_contents (Elem t a tx ta cs) (PBlock (Table False [])) st = Inr (b, st')"
        and p': "p' = (if 0 < parent_width b then append_parent parent b else parent)"
        by (auto simp: render.simps and_then_Inr split: if_splits)
      from IH(6) [OF H_table b] have "building_ok b" by simp
      then show ?thesis using p' "1.prems" by simp
    next
      case H_td
      with "1.prems" Some IH(7) [OF H_td] show ?thesis
        by (auto simp: render.simps split: if_splits)
    next
      case H_thead
      with "1.prems" Some IH(8) [OF H_thead] show ?thesis
        by (auto simp: render.simps split: if_splits)
    next
      case H_tr
      with "1.prems" Some obtain row where
        b: "render_cells (filter (\<lambda>c. etag c = ''td'') cs) (PBlock (TableRow [])) st = Inr (row, st')"
        and p': "p' = append_parent parent row" and tb: "is_table parent"
        by (auto simp: render.simps and_then_Inr split: if_splits)
      from tb have ntb: "\<not> \<not> is_table parent" by simp
      from IH(9) [OF H_tr ntb b] have "building_ok row" by simp
      moreover from render_shape(5) [OF b] have "shape_of row = SRow" by simp
      ultimately show ?thesis using p' "1.prems" by simp
    qed (use "1.prems" Some in \<open>auto simp: render.simps split: option.splits if_splits\<close>)
  qed
next
  case (2 t a tx ta cs parent st)
  show ?case
  proof (cases "elem_has_text (Elem t a tx ta cs) False")
    case False
    with "2.prems" "2.IH"(1) show ?thesis
      by (auto simp: process_contents.simps and_then_Inr simp del: elem_has_text.simps)
  next
    case True
    then have nn: "\<not> \<not> elem_has_text (Elem t a tx ta cs) False" by simp
    show ?thesis
    proof (cases "is_text_block parent \<or> is_table_row parent")
      case True
      with "2.prems" nn "2.IH"(2) [OF nn True] show ?thesis
        by (auto simp: process_contents.simps and_then_Inr simp del: elem_has_text.simps)
    next
      case False
      with "2.prems" nn obtain np where
        b: "process_children cs True (append_text tx (PBlock (TextBlock Paragraph [] [])) st) st
              = Inr (np, st')"
        and p': "p' = append_parent parent (strip_text_block np)"
        by (auto simp: process_contents.simps and_then_Inr simp del: elem_has_text.simps)
      from "2.IH"(3) [OF nn False b] have "building_ok np" by simp
      moreover from render_shape(3) [OF b] have "shape_of np = SText Paragraph" by simp
      ultimately show ?thesis using p' "2.prems" by simp
    qed
  qed
next
  case (3 has_text parent st)
  then show ?case by auto
next
  case (4 c cs has_text parent st)
  from "4.prems" obtain p st1 where r: "render c parent st = Inr (p, st1)"
    and rest: "process_children cs has_text
                 (if has_text then append_text (etail c) p st1 else p) st1 = Inr (p', st')"
    by (auto simp: and_then_Inr)
  from "4.IH"(1) [OF r] "4.prems" have "building_ok p" by simp
  with "4.IH"(2) [OF rest] show ?case by simp
next
  case (5 k parent list_parent st)
  then show ?case by auto
next
  case (6 c cs k parent list_parent st)
  show ?case
  proof (cases "etag c = ''li''")
    case True
    with "6.prems" obtain item st1 where
      r: "render c (PBlock (TextBlock k [] [])) st = Inr (item, st1)"
      and rest: "process_list cs k (flush parent list_parent) (Some item) st1 = Inr (p', st')"
      by (auto simp: and_then_Inr)
    from "6.IH"(1) [OF True r] have "building_ok item" by simp
    moreover from render_shape(1) [OF r] have "shape_of item = SText k" by simp
    ultimately show ?thesis using "6.IH"(2) [OF True rest] "6.prems" by simp
  next
    case False
    show ?thesis
    proof (cases list_parent)
      case None
      with False "6.prems" obtain p st1 where
        r: "render c parent st = Inr (p, st1)"
        and rest: "process_list cs k p None st1 = Inr (p', st')"
        by (auto simp: and_then_Inr)
      from "6.IH"(3) [OF False None r] "6.prems" have "building_ok p" by simp
      with "6.IH"(4) [OF False None rest] show ?thesis by simp
    next
      case (Some lp)
      with False "6.prems" obtain lp1 st1 where
        r: "render c lp st = Inr (lp1, st1)"
        and rest: "process_list cs k parent (Some lp1) st1 = Inr (p', st')"
        by (auto simp: and_then_Inr)
      from "6.IH"(5) [OF False Some r] "6.prems" Some have "building_ok lp1" by simp
      moreover from render_shape(1) [OF r] "6.prems" Some have "\<exists>k. shape_of lp1 = SText k"
        by simp
      ultimately show ?thesis using "6.IH"(6) [OF False Some rest] "6.prems" by simp
    qed
  qed
next
  case (7 row st)
  then show ?case by auto
next
  case (8 td tds row st)
  from "8.prems" obtain p st1 where r: "render td row st = Inr (p, st1)"
    and rest: "render_cells tds p st1 = Inr (p', st')"
    by (auto simp: and_then_Inr)
  from "8.IH"(1) [OF r] "8.prems" have "building_ok p" by simp
  with "8.IH"(2) [OF rest] show ?case by simp
qed


lemma handler_of_table: "handler_of ''table'' = Some H_table"
  by (simp add: handler_of_def handlers_def)

lemma parse_tables_ok:
  assumes "parse name doc self = Inr result" and "list_all tables_ok (content self)"
  shows "list_all tables_ok (content result)"
proof -
  define self1 where
    "self1 = (case name of None \<Rightarrow> self | Some n \<Rightarrow> self\<lparr>title := Some (basename n)\<rparr>)"
  have c1: "content self1 = content self"
    by (simp add: self1_def split: option.splits)
  from assms(1) obtain p st where r: "render doc (PList (content self1)) self1 = Inr (p, st)"
    and res: "result = st\<lparr>content := content_of p\<rparr>"
    by (auto simp: parse_def self1_def [symmetric] Let_def split: sum.splits)
  from render_ok(1) [OF r] assms(2) c1 have ok: "building_ok p" by simp
  from render_shape(1) [OF r] obtain xs where "p = PList xs"
    by (cases p rule: shape_of.cases) auto
  with ok res show ?thesis by simp
qed

text \<open>
  Claim C6.  After a parse that returns, every table of the content sequence, at any
  depth, has a positive width; and a \<open>table\<close> element whose processing leaves the new
  table with width 0 is dropped: its parent is returned as it was.
\<close>

theorem no_empty_table_in_output:
  "(parse name doc (init base) = Inr result \<longrightarrow> list_all tables_ok (content result)) \<and>
   (process_contents (Elem ''table'' a tx ta cs) (PBlock (Table False [])) st = Inr (tb, st1) \<and>
    parent_width tb = 0 \<longrightarrow>
      render (Elem ''table'' a tx ta cs) parent st = Inr (parent, st1))"
proof (intro conjI impI)
  assume "parse name doc (init base) = Inr result"
  then show "list_all tables_ok (content result)"
    by (rule parse_tables_ok) (simp add: init_def)
next
  assume "process_contents (Elem ''table'' a tx ta cs) (PBlock (Table False [])) st = Inr (tb, st1) \<and>
    parent_width tb = 0"
  then show "render (Elem ''table'' a tx ta cs) parent st = Inr (parent, st1)"
    by (simp add: render.simps handler_of_table and_then_def)
qed

theorem no_empty_table_in_output_witness:
  "parse None
     (Elem ''html'' [] None None
        [Elem ''body'' [] None None
           [Elem ''table'' [] None None [Elem ''tr'' [] None None []],
            Elem ''hr'' [] None None []]])
     (init None) = Inr ((init None)\<lparr>content := [Divider]\<rparr>) \<and>
   list_all tables_ok (content ((init None)\<lparr>content := [Divider]\<rparr>))"
proof -
  have e: "parse None
     (Elem ''html'' [] None None
        [Elem ''body'' [] None None
           [Elem ''table'' [] None None [Elem ''tr'' [] None None []],
            Elem ''hr'' [] None None []]])
     (init None) = Inr ((init None)\<lparr>content := [Divider]\<rparr>)"
    by (simp add: eval_defs)
  from no_empty_table_in_output [THEN conjunct1, rule_format, OF e] e
  show ?thesis by simp
qed

section \<open>Lists\<close>

text \<open>
  The loop of \<open>_process_list\<close>, seen from the outer parent: once an item exists, what the
  loop does to the outer parent is to append items, one for the current item and one
  for each \<open>li\<close> still to come.
\<close>

lemma handler_of_lists:
  "handler_of ''ul'' = Some (H_list BulletedListItem)"
  "handler_of ''menu'' = Some (H_list BulletedListItem)"
  "handler_of ''ol'' = Some (H_list NumberedListItem)"
  by (simp_all add: handler_of_def handlers_def)

lemma text_shape_cases:
  "shape_of q = SText k \<Longrightarrow> \<exists>rs ch. q = PBlock (TextBlock k rs ch)"
  by (cases q rule: shape_of.cases) auto

lemma process_list_item:
  "process_list cs k parent (Some q) st = Inr (p', st') \<Longrightarrow> shape_of q = SText k \<Longrightarrow>
     \<exists>items. p' = foldl append parent items \<and>
       length items = Suc (length (filter (\<lambda>c. etag c = ''li'') cs)) \<and>
       (\<forall>b \<in> set items. shape_of (PBlock b) = SText k)"
proof (induction cs arbitrary: parent q st)
  case Nil
  from text_shape_cases [OF Nil.prems(2)] obtain rs ch where q: "q = PBlock (TextBlock k rs ch)"
    by blast
  with Nil.prems(1) have "p' = foldl append parent [TextBlock k rs ch]" by auto
  then show ?case by (intro exI [of _ "[TextBlock k rs ch]"]) simp
next
  case (Cons c cs)
  show ?case
  proof (cases "etag c = ''li''")
    case True
    with Cons.prems(1) obtain item st1 where
      r: "render c (PBlock (TextBlock k [] [])) st = Inr (item, st1)"
      and rest: "process_list cs k (flush parent (Some q)) (Some item) st1 = Inr (p', st')"
      by (auto simp: and_then_Inr)
    from render_shape(1) [OF r] have sh: "shape_of item = SText k" by simp
    from text_shape_cases [OF Cons.prems(2)] obtain rs ch where q: "q = PBlock (TextBlock k rs ch)"
      by blast
    from Cons.IH [OF rest sh] obtain items where
      i: "p' = foldl append (flush parent (Some q)) items"
         "length items = Suc (length (filter (\<lambda>c. etag c = ''li'') cs))"
         "\<forall>b \<in> set items. shape_of (PBlock b) = SText k"
      by blast
    from i(1) q have "p' = foldl append parent (TextBlock k rs ch # items)" by simp
    with i(2,3) True show ?thesis
      by (intro exI [of _ "TextBlock k rs ch # items"]) simp
  next
    case False
    with Cons.prems(1) obtain q1 st1 where
      r: "render c q st = Inr (q1, st1)"
      and rest: "process_list cs k parent (Some q1) st1 = Inr (p', st')"
      by (auto simp: and_then_Inr)
    from render_shape(1) [OF r] Cons.prems(2) have sh: "shape_of q1 = SText k" by simp
    from Cons.IH [OF rest sh] False show ?thesis by simp
  qed
qed

lemma process_list_outer:
  "process_list cs k parent None st = Inr (p', st') \<Longrightarrow>
     \<exists>p0 st0 items.
       process_list (takeWhile (\<lambda>c. etag c \<noteq> ''li'') cs) k parent None st = Inr (p0, st0) \<and>
       p' = foldl append p0 items \<and>
       length items = length (filter (\<lambda>c. etag c = ''li'') cs) \<and>
       (\<forall>b \<in> set items. shape_of (PBlock b) = SText k)"
proof (induction cs arbitrary: parent st)
  case Nil
  then show ?case by (intro exI [of _ "[]"] exI [of _ parent] exI [of _ st]) auto
next
  case (Cons c cs)
  show ?case
  proof (cases "etag c = ''li''")
    case True
    with Cons.prems(1) obtain item st1 where
      r: "render c (PBlock (TextBlock k [] [])) st = Inr (item, st1)"
      and rest: "process_list cs k parent (Some item) st1 = Inr (p', st')"
      by (auto simp: and_then_Inr)
    from render_shape(1) [OF r] have sh: "shape_of item = SText k" by simp
    from process_list_item [OF rest sh] obtain items where
      "p' = foldl append parent items"
      "length items = Suc (length (filter (\<lambda>c. etag c = ''li'') cs))"
      "\<forall>b \<in> set items. shape_of (PBlock b) = SText k"
      by blast
    with True show ?thesis
      by (intro exI [of _ items] exI [of _ parent] exI [of _ st]) simp
  next
    case False
    with Cons.prems(1) obtain p1 st1 where
      r: "render c parent st = Inr (p1, st1)"
      and rest: "process_list cs k p1 None st1 = Inr (p', st')"
      by (auto simp: and_then_Inr)
    from Cons.IH [OF rest] obtain p0 st0 items where
      i: "process_list (takeWhile (\<lambda>c. etag c \<noteq> ''li'') cs) k p1 None st1 = Inr (p0, st0)"
         "p' = foldl append p0 items"
         "length items = length (filter (\<lambda>c. etag c = ''li'') cs)"
         "\<forall>b \<in> set items. shape_of (PBlock b) = SText k"
      by blast
    from False r i(1) have
      "process_list (takeWhile (\<lambda>c. etag c \<noteq> ''li'') (c # cs)) k parent None st = Inr (p0, st0)"
      by (simp add: and_then_def)
    with i(2,3,4) False show ?thesis
      by (intro exI [of _ items] exI [of _ p0] exI [of _ st0]) simp
  qed
qed

text \<open>
  Claim C7.  \<open>ul\<close>, \<open>menu\<close> and \<open>ol\<close> run the list loop on their children with the outer
  parent and the requested kind, and there is no wrapper block: after the children that
  precede the first \<open>li\<close> have been rendered into the outer parent, the loop appends to it
  exactly one text block of that kind for each direct \<open>li\<close> child.  The contents of an
  \<open>li\<close> are processed into its new item, so a list inside it is appended to the item; a
  child that is not an \<open>li\<close> is rendered into the latest item, or into the outer parent
  when there is none yet.
\<close>

theorem list_items_flattened:
  "((t, k) \<in> {(''ul'', BulletedListItem), (''menu'', BulletedListItem), (''ol'', NumberedListItem)}
      \<longrightarrow> render (Elem t a tx ta cs) parent st = process_list cs k parent None st) \<and>
   (process_list cs k parent None st = Inr (p', st') \<longrightarrow>
      (\<exists>p0 st0 items.
         process_list (takeWhile (\<lambda>c. etag c \<noteq> ''li'') cs) k parent None st = Inr (p0, st0) \<and>
         p' = foldl append p0 items \<and>
         length items = length (filter (\<lambda>c. etag c = ''li'') cs) \<and>
         (\<forall>b \<in> set items. shape_of (PBlock b) = SText k))) \<and>
   (etag c = ''li'' \<longrightarrow>
      process_list (c # cs) k parent lp st
        = and_then (process_contents c (PBlock (TextBlock k [] [])) st)
            (\<lambda>item st1. process_list cs k (flush parent lp) (Some item) st1)) \<and>
   (etag c \<noteq> ''li'' \<longrightarrow>
      process_list (c # cs) k parent (Some item) st
        = and_then (render c item st) (\<lambda>i st1. process_list cs k parent (Some i) st1)) \<and>
   (etag c \<noteq> ''li'' \<longrightarrow>
      process_list (c # cs) k parent None st
        = and_then (render c parent st) (\<lambda>p st1. process_list cs k p None st1))"
proof (intro conjI impI)
  assume "(t, k) \<in> {(''ul'', BulletedListItem), (''menu'', BulletedListItem),
                     (''ol'', NumberedListItem)}"
  then have "handler_of t = Some (H_list k)"
    by (elim insertE emptyE; simp add: handler_of_lists)
  then show "render (Elem t a tx ta cs) parent st = process_list cs k parent None st"
    by (simp add: render.simps)
next
  assume "process_list cs k parent None st = Inr (p', st')"
  then show "\<exists>p0 st0 items.
         process_list (takeWhile (\<lambda>c. etag c \<noteq> ''li'') cs) k parent None st = Inr (p0, st0) \<and>
         p' = foldl append p0 items \<and>
         length items = length (filter (\<lambda>c. etag c = ''li'') cs) \<and>
         (\<forall>b \<in> set items. shape_of (PBlock b) = SText k)"
    by (rule process_list_outer)
next
  assume li: "etag c = ''li''"
  have "render c p s = process_contents c p s" for p s
    using li by (cases c) (simp add: render.simps handler_of_def handlers_def)
  with li show "process_list (c # cs) k parent lp st
        = and_then (process_contents c (PBlock (TextBlock k [] [])) st)
            (\<lambda>item st1. process_list cs k (flush parent lp) (Some item) st1)"
    by simp
qed simp_all

theorem list_items_flattened_witness:
  "render (Elem ''ul'' [] None None
      [Elem ''li'' [] (Some ''A'') None [],
       Elem ''li'' [] (Some ''B'') None
         [Elem ''ul'' [] None None [Elem ''li'' [] (Some ''C'') None []]]])
     (PList []) (init None)
   = Inr (PList
       [TextBlock BulletedListItem
          [\<lparr>plain_text = ''A'', href = None, annotations = Annotations\<rparr>] [],
        TextBlock BulletedListItem
          [\<lparr>plain_text = ''B'', href = None, annotations = Annotations\<rparr>]
          [TextBlock BulletedListItem
             [\<lparr>plain_text = ''C'', href = None, annotations = Annotations\<rparr>] []]],
      init None)"
proof -
  have h: "(''ul'', BulletedListItem) \<in> {(''ul'', BulletedListItem),
             (''menu'', BulletedListItem), (''ol'', NumberedListItem)}"
    by simp
  have e: "process_list
      [Elem ''li'' [] (Some ''A'') None [],
       Elem ''li'' [] (Some ''B'') None
         [Elem ''ul'' [] None None [Elem ''li'' [] (Some ''C'') None []]]]
      BulletedListItem (PList []) None (init None)
   = Inr (PList
       [TextBlock BulletedListItem
          [\<lparr>plain_text = ''A'', href = None, annotations = Annotations\<rparr>] [],
        TextBlock BulletedListItem
          [\<lparr>plain_text = ''B'', href = None, annotations = Annotations\<rparr>]
          [TextBlock BulletedListItem
             [\<lparr>plain_text = ''C'', href = None, annotations = Annotations\<rparr>] []]],
      init None)"
    by (simp add: eval_defs)
  from list_items_flattened [where t = "''ul''" and k = BulletedListItem and a = "[]"
      and tx = None and ta = None and parent = "PList []" and st = "init None"
      and cs = "[Elem ''li'' [] (Some ''A'') None [],
       Elem ''li'' [] (Some ''B'') None
         [Elem ''ul'' [] None None [Elem ''li'' [] (Some ''C'') None []]]]",
      THEN conjunct1, rule_format, OF h] e
  show ?thesis by simp
qed

section \<open>Parsing twice with one parser\<close>

text \<open>
  What a rendering returns depends on the parser only through the current text style and
  link target, and on the parent only by what is appended to it.
\<close>

lemma and_then_carried:
  assumes "carried pre r r2"
    and "\<And>p st st2. same_style st st2 \<Longrightarrow> carried pre (f p st) (g (prepend pre p) st2)"
  shows "carried pre (and_then r f) (and_then r2 g)"
  using assms by (cases "(pre, r, r2)" rule: carried.cases) (auto simp: and_then_def)

lemma prepend_tests [simp]:
  "is_text_block (prepend pre p) = is_text_block p"
  "is_code (prepend pre p) = is_code p"
  "is_table (prepend pre p) = is_table p"
  "is_table_row (prepend pre p) = is_table_row p"
  "parent_width (prepend pre p) = parent_width p"
  by (cases p; simp)+

lemma prepend_block: "shape_of p \<noteq> SList \<Longrightarrow> prepend pre p = p"
  by (cases p) auto

lemma prepend_append [simp]: "append (prepend pre p) b = prepend pre (append p b)"
  by (cases "(p, b)" rule: append.cases) auto

lemma prepend_append_parent [simp]:
  "append_parent (prepend pre p) (prepend pre q) = prepend pre (append_parent p q)"
  by (cases q) auto

lemma prepend_append_block [simp]:
  "append_parent (prepend pre p) (PBlock b) = prepend pre (append_parent p (PBlock b))"
  by simp

lemma prepend_concat_run [simp]: "concat_run (prepend pre p) r = prepend pre (concat_run p r)"
  by (cases "(p, r)" rule: concat_run.cases) auto

lemma prepend_concat_str [simp]: "concat_str (prepend pre p) s = prepend pre (concat_str p s)"
  by (cases "(p, s)" rule: concat_str.cases) auto

lemma prepend_append_cell [simp]: "append_cell (prepend pre p) obj = prepend pre (append_cell p obj)"
  by (cases "(p, obj)" rule: append_cell.cases) auto

lemma prepend_strip [simp]: "strip_text_block (prepend pre p) = prepend pre (strip_text_block p)"
  by (cases p rule: strip_text_block.cases) (auto simp: Let_def)

lemma prepend_header [simp]:
  "set_has_column_header (prepend pre p) = prepend pre (set_has_column_header p)"
  by (cases p rule: set_has_column_header.cases) auto

lemma prepend_append_text:
  "same_style st st2 \<Longrightarrow> append_text t (prepend pre p) st2 = prepend pre (append_text t p st)"
  by (auto simp: append_text_def same_style_def Let_def split: option.splits)

lemma prepend_flush [simp]:
  "flush (prepend pre p) (map_option (prepend pre) lp) = prepend pre (flush p lp)"
  by (cases lp) auto

lemma same_style_updates [simp]:
  "same_style st st2 \<Longrightarrow> same_style (st\<lparr>current_href := h\<rparr>) (st2\<lparr>current_href := h\<rparr>)"
  "same_style st st2 \<Longrightarrow>
     same_style (st\<lparr>current_text_style := set_flag f v (current_text_style st)\<rparr>)
                (st2\<lparr>current_text_style := set_flag f v (current_text_style st2)\<rparr>)"
  "same_style (st\<lparr>title := x\<rparr>) st2 = same_style st st2"
  "same_style st (st2\<lparr>title := x\<rparr>) = same_style st st2"
  "same_style (st\<lparr>base_url := y\<rparr>) st2 = same_style st st2"
  "same_style st (st2\<lparr>base_url := y\<rparr>) = same_style st st2"
  "same_style (st\<lparr>content := z\<rparr>) st2 = same_style st st2"
  "same_style st (st2\<lparr>content := z\<rparr>) = same_style st st2"
  "same_style (render_meta a st) st2 = same_style st st2"
  "same_style st (render_meta a st2) = same_style st st2"
  by (auto simp: same_style_def render_meta_def split: option.splits)

lemma carried_Inr [simp]:
  "carried pre (Inr (p, st)) (Inr (prepend pre p, st2)) = same_style st st2"
  by simp

lemma render_carried:
  "same_style st st2 \<Longrightarrow> carried pre (render e p st) (render e (prepend pre p) st2)"
  "same_style st st2 \<Longrightarrow>
     carried pre (process_contents e p st) (process_contents e (prepend pre p) st2)"
  "same_style st st2 \<Longrightarrow>
     carried pre (process_children cs h p st) (process_children cs h (prepend pre p) st2)"
  "same_style st st2 \<Longrightarrow>
     carried pre (process_list cs k p lp st)
       (process_list cs k (prepend pre p) (map_option (prepend pre) lp) st2)"
  "same_style st st2 \<Longrightarrow> carried pre (render_cells cs p st) (render_cells cs (prepend pre p) st2)"
proof (induction e p st and e p st and cs h p st and cs k p lp st and cs p st
       arbitrary: st2 and st2 and st2 and st2 and st2
       rule: render_process_contents_process_children_process_list_render_cells.induct)
  case (1 t a tx ta cs parent st)
  show ?case
  proof (cases "handler_of t")
    case None
    with "1.prems" show ?thesis by (simp add: render.simps)
  next
    case (Some h)
    note IH = "1.IH" [OF Some]
    show ?thesis
    proof (cases h)
      case H_a
      from "1.prems" have "same_style (st\<lparr>current_href := map_of a ''href''\<rparr>)
                                       (st2\<lparr>current_href := map_of a ''href''\<rparr>)" by simp
      from IH(1) [OF H_a this] show ?thesis using Some H_a
        by (auto simp: render.simps intro!: and_then_carried)
    next
      case (H_style f)
      from "1.prems" have
        "same_style (st\<lparr>current_text_style := set_flag f True (current_text_style st)\<rparr>)
                    (st2\<lparr>current_text_style := set_flag f True (current_text_style st2)\<rparr>)"
        by simp
      from IH(2) [OF H_style this] show ?thesis using Some H_style
        by (auto simp: render.simps intro!: and_then_carried)
    next
      case (H_block k)
      from IH(3) [OF H_block "1.prems"] show ?thesis using Some H_block
        by (auto simp: render.simps intro!: and_then_carried)
    next
      case H_transparent
      from IH(4) [OF H_transparent "1.prems"] show ?thesis using Some H_transparent
        by (simp add: render.simps)
    next
      case (H_list k)
      from IH(5) [OF H_list "1.prems"] show ?thesis using Some H_list
        by (simp add: render.simps)
    next
      case H_table
      from IH(6) [OF H_table "1.prems"] show ?thesis using Some H_table
        by (auto simp: render.simps intro!: and_then_carried)
    next
      case H_td
      show ?thesis
      proof (cases "is_table_row parent \<and> elem_has_text (Elem t a tx ta cs) True")
        case True
        then have c: "\<not> \<not> is_table_row parent" "elem_has_text (Elem t a tx ta cs) True" by simp_all
        from IH(7) [OF H_td c "1.prems"] True show ?thesis using Some H_td
          by (simp add: render.simps del: elem_has_text.simps)
      next
        case False
        with "1.prems" show ?thesis using Some H_td
          by (auto simp: render.simps prepend_append_text simp del: elem_has_text.simps)
      qed
    next
      case H_thead
      show ?thesis
      proof (cases "is_table parent")
        case True
        then have c: "\<not> \<not> is_table parent" by simp
        from IH(8) [OF H_thead c "1.prems"] True show ?thesis using Some H_thead
          by (simp add: render.simps)
      next
        case False
        then show ?thesis using Some H_thead by (simp add: render.simps)
      qed
    next
      case H_tr
      show ?thesis
      proof (cases "is_table parent")
        case True
        then have c: "\<not> \<not> is_table parent" by simp
        from IH(9) [OF H_tr c "1.prems"] True show ?thesis using Some H_tr
          by (auto simp: render.simps intro!: and_then_carried)
      next
        case False
        then show ?thesis using Some H_tr by (simp add: render.simps)
      qed
    qed (use "1.prems" Some in \<open>auto simp: render.simps split: option.splits\<close>)
  qed
next
  case (2 t a tx ta cs parent st)
  show ?case
  proof (cases "elem_has_text (Elem t a tx ta cs) False")
    case False
    from "2.IH"(1) [OF False "2.prems"] False show ?thesis
      by (auto simp: process_contents.simps simp del: elem_has_text.simps intro!: and_then_carried)
  next
    case True
    then have nn: "\<not> \<not> elem_has_text (Elem t a tx ta cs) False" by simp
    show ?thesis
    proof (cases "is_text_block parent \<or> is_table_row parent")
      case True
      from "2.IH"(2) [OF nn True "2.prems"] True nn show ?thesis
        by (auto simp: process_contents.simps prepend_append_text [OF "2.prems"]
              simp del: elem_has_text.simps intro!: and_then_carried)
    next
      case False
      have pp: "prepend pre (append_text tx (PBlock (TextBlock Paragraph [] [])) st)
                     = append_text tx (PBlock (TextBlock Paragraph [] [])) st"
        by (rule prepend_block) simp
      have e: "append_text tx (PBlock (TextBlock Paragraph [] [])) st2
                 = append_text tx (PBlock (TextBlock Paragraph [] [])) st"
        using prepend_append_text [OF "2.prems", of tx pre "PBlock (TextBlock Paragraph [] [])"] pp
        by simp
      from "2.IH"(3) [OF nn False "2.prems"] False nn show ?thesis
        by (auto simp: process_contents.simps e pp
              simp del: elem_has_text.simps intro!: and_then_carried)
    qed
  qed
next
  case (3 has_text parent st)
  then show ?case by auto
next
  case (4 c cs has_text parent st)
  have step: "carried pre
      (process_children cs has_text (if has_text then append_text (etail c) p s else p) s)
      (process_children cs has_text
         (if has_text then append_text (etail c) (prepend pre p) s2 else prepend pre p) s2)"
    if "same_style s s2" for p s s2
    using "4.IH"(2) [OF that, of p] prepend_append_text [OF that, of "etail c" pre p]
    by (cases has_text) simp_all
  show ?case
    unfolding process_children.simps
    by (rule and_then_carried [OF "4.IH"(1) [OF "4.prems"]]) (rule step)
next
  case (5 k parent list_parent st)
  then show ?case by auto
next
  case (6 c cs k parent list_parent st)
  show ?case
  proof (cases "etag c = ''li''")
    case True
    have "carried pre (process_list cs k (flush parent list_parent) (Some item) s)
            (process_list cs k (prepend pre (flush parent list_parent))
               (map_option (prepend pre) (Some item)) s2)"
      if "same_style s s2" for item s s2
      using "6.IH"(2) [OF True that] .
    with "6.IH"(1) [OF True "6.prems"] True show ?thesis
      by (auto intro!: and_then_carried)
  next
    case False
    show ?thesis
    proof (cases list_parent)
      case None
      have "carried pre (process_list cs k p None s)
              (process_list cs k (prepend pre p) (map_option (prepend pre) None) s2)"
        if "same_style s s2" for p s s2
        using "6.IH"(4) [OF False None that] .
      with "6.IH"(3) [OF False None "6.prems"] False None show ?thesis
        by (auto intro!: and_then_carried)
    next
      case (Some lp)
      have "carried pre (process_list cs k parent (Some lp1) s)
              (process_list cs k (prepend pre parent) (map_option (prepend pre) (Some lp1)) s2)"
        if "same_style s s2" for lp1 s s2
        using "6.IH"(6) [OF False Some that] .
      with "6.IH"(5) [OF False Some "6.prems"] False Some show ?thesis
        by (auto intro!: and_then_carried)
    qed
  qed
next
  case (7 row st)
  then show ?case by auto
next
  case (8 td tds row st)
  show ?case
    using "8.IH"(1) [OF "8.prems"]
    by (auto intro!: and_then_carried "8.IH"(2))
qed


lemma get_set_flag [simp]:
  "get_flag g (set_flag f v s) = (if g = f then v else get_flag g s)"
  by (cases g; cases f) simp_all

lemma calmer_refl [simp]: "calmer st st"
  by (simp add: calmer_def)

lemma calmer_trans: "calmer a b \<Longrightarrow> calmer b c \<Longrightarrow> calmer a c"
  by (auto simp: calmer_def)

lemma calmer_updates [simp]:
  "calmer (st\<lparr>title := x\<rparr>) st2 = calmer st st2"
  "calmer st (st2\<lparr>title := x\<rparr>) = calmer st st2"
  "calmer (st\<lparr>base_url := y\<rparr>) st2 = calmer st st2"
  "calmer (st\<lparr>content := z\<rparr>) st2 = calmer st st2"
  "calmer (render_meta a st) st2 = calmer st st2"
  by (auto simp: calmer_def render_meta_def split: option.splits)

lemma calmer_href:
  "calmer st1 (st\<lparr>current_href := h\<rparr>) \<Longrightarrow> calmer (st1\<lparr>current_href := None\<rparr>) st"
  by (auto simp: calmer_def)

lemma calmer_flag:
  "calmer st1 (st\<lparr>current_text_style := set_flag f True (current_text_style st)\<rparr>) \<Longrightarrow>
   calmer (st1\<lparr>current_text_style := set_flag f False (current_text_style st1)\<rparr>) st"
  by (auto simp: calmer_def split: if_splits)

lemma render_calmer:
  "render e p st = Inr (p', st') \<Longrightarrow> calmer st' st"
  "process_contents e p st = Inr (p', st') \<Longrightarrow> calmer st' st"
  "process_children cs h p st = Inr (p', st') \<Longrightarrow> calmer st' st"
  "process_list cs k p lp st = Inr (p', st') \<Longrightarrow> calmer st' st"
  "render_cells cs p st = Inr (p', st') \<Longrightarrow> calmer st' st"
proof (induction e p st and e p st and cs h p st and cs k p lp st and cs p st
       arbitrary: p' st' and p' st' and p' st' and p' st' and p' st'
       rule: render_process_contents_process_children_process_list_render_cells.induct)
  case (1 t a tx ta cs parent st)
  then show ?case
    by (auto simp: render.simps and_then_Inr
             split: option.splits handler.splits if_splits
             intro: calmer_href calmer_flag)
next
  case (2 t a tx ta cs parent st)
  then show ?case
    by (auto simp: process_contents.simps and_then_Inr split: if_splits)
next
  case (3 has_text parent st)
  then show ?case by auto
next
  case (4 c cs has_text parent st)
  from "4.prems" obtain p st1 where r: "render c parent st = Inr (p, st1)"
    and rest: "process_children cs has_text
                 (if has_text then append_text (etail c) p st1 else p) st1 = Inr (p', st')"
    by (auto simp: and_then_Inr)
  from "4.IH"(2) [OF rest] "4.IH"(1) [OF r] show ?case by (rule calmer_trans)
next
  case (5 k parent list_parent st)
  then show ?case by auto
next
  case (6 c cs k parent list_parent st)
  show ?case
  proof (cases "etag c = ''li''")
    case True
    with "6.prems" obtain item st1 where
      r: "render c (PBlock (TextBlock k [] [])) st = Inr (item, st1)"
      and rest: "process_list cs k (flush parent list_parent) (Some item) st1 = Inr (p', st')"
      by (auto simp: and_then_Inr)
    from "6.IH"(2) [OF True rest] "6.IH"(1) [OF True r] show ?thesis by (rule calmer_trans)
  next
    case False
    show ?thesis
    proof (cases list_parent)
      case None
      with False "6.prems" obtain p st1 where
        r: "render c parent st = Inr (p, st1)"
        and rest: "process_list cs k p None st1 = Inr (p', st')"
        by (auto simp: and_then_Inr)
      from "6.IH"(4) [OF False None rest] "6.IH"(3) [OF False None r] show ?thesis
        by (rule calmer_trans)
    next
      case (Some lp)
      with False "6.prems" obtain lp1 st1 where
        r: "render c lp st = Inr (lp1, st1)"
        and rest: "process_list cs k parent (Some lp1) st1 = Inr (p', st')"
        by (auto simp: and_then_Inr)
      from "6.IH"(6) [OF False Some rest] "6.IH"(5) [OF False Some r] show ?thesis
        by (rule calmer_trans)
    qed
  qed
next
  case (7 row st)
  then show ?case by auto
next
  case (8 td tds row st)
  from "8.prems" obtain p st1 where r: "render td row st = Inr (p, st1)"
    and rest: "render_cells tds p st1 = Inr (p', st')"
    by (auto simp: and_then_Inr)
  from "8.IH"(2) [OF rest] "8.IH"(1) [OF r] show ?case by (rule calmer_trans)
qed

lemma all_flags_off: "(\<forall>f. \<not> get_flag f s) \<Longrightarrow> s = Annotations"
proof -
  assume a: "\<forall>f. \<not> get_flag f s"
  from a [rule_format, of FBold] a [rule_format, of FItalic] a [rule_format, of FUnderline]
    a [rule_format, of FStrikethrough] a [rule_format, of FCode]
  show ?thesis by (cases s) (simp add: Annotations_def)
qed

lemma calmer_than_fresh:
  "calmer st st0 \<Longrightarrow> current_text_style st0 = Annotations \<Longrightarrow> current_href st0 = None \<Longrightarrow>
     current_text_style st = Annotations \<and> current_href st = None"
proof -
  assume c: "calmer st st0" and s0: "current_text_style st0 = Annotations"
    and h0: "current_href st0 = None"
  have off: "\<not> get_flag f Annotations" for f
    by (cases f) (simp_all add: Annotations_def)
  from c s0 off have "\<forall>f. \<not> get_flag f (current_text_style st)"
    by (auto simp: calmer_def)
  then have "current_text_style st = Annotations" by (rule all_flags_off)
  moreover from c h0 have "current_href st = None" by (auto simp: calmer_def)
  ultimately show ?thesis by simp
qed

lemma carried_Inr_D:
  "carried pre (Inr (p, st)) r2 \<Longrightarrow> \<exists>st2. r2 = Inr (prepend pre p, st2) \<and> same_style st st2"
  by (cases "(pre, Inr (p, st) :: result, r2)" rule: carried.cases) auto

lemma parse_Inr_D:
  "parse name doc self = Inr s \<Longrightarrow>
     \<exists>xs st. render doc (PList (content self))
                (case name of None \<Rightarrow> self | Some n \<Rightarrow> self\<lparr>title := Some (basename n)\<rparr>)
              = Inr (PList xs, st) \<and> s = st\<lparr>content := xs\<rparr>"
proof -
  assume a: "parse name doc self = Inr s"
  define self1 where
    "self1 = (case name of None \<Rightarrow> self | Some n \<Rightarrow> self\<lparr>title := Some (basename n)\<rparr>)"
  have c1: "content self1 = content self"
    by (simp add: self1_def split: option.splits)
  from a obtain p st where r: "render doc (PList (content self1)) self1 = Inr (p, st)"
    and res: "s = st\<lparr>content := content_of p\<rparr>"
    by (auto simp: parse_def self1_def [symmetric] Let_def split: sum.splits)
  from render_shape(1) [OF r] obtain xs where "p = PList xs"
    by (cases p rule: shape_of.cases) auto
  with r res c1 show ?thesis by (auto simp: self1_def)
qed

lemma parse_on_used_parser:
  assumes "parse n1 d1 (init b1) = Inr s1" and "parse n2 d2 (init b2) = Inr r2"
  shows "\<exists>s2. parse n2 d2 s1 = Inr s2 \<and> content s2 = content s1 @ content r2"
proof -
  define i1 where
    "i1 = (case n1 of None \<Rightarrow> init b1 | Some n \<Rightarrow> (init b1)\<lparr>title := Some (basename n)\<rparr>)"
  define i2 where
    "i2 = (case n2 of None \<Rightarrow> init b2 | Some n \<Rightarrow> (init b2)\<lparr>title := Some (basename n)\<rparr>)"
  define u where
    "u = (case n2 of None \<Rightarrow> s1 | Some n \<Rightarrow> s1\<lparr>title := Some (basename n)\<rparr>)"
  from parse_Inr_D [OF assms(1)] obtain xs st1 where
    r1: "render d1 (PList []) i1 = Inr (PList xs, st1)" and s1: "s1 = st1\<lparr>content := xs\<rparr>"
    by (auto simp: i1_def init_def)
  from parse_Inr_D [OF assms(2)] obtain ys st2 where
    r2: "render d2 (PList []) i2 = Inr (PList ys, st2)" and rr: "r2 = st2\<lparr>content := ys\<rparr>"
    by (auto simp: i2_def init_def)
  have f1: "current_text_style i1 = Annotations \<and> current_href i1 = None"
    by (simp add: i1_def init_def split: option.splits)
  have f2: "current_text_style i2 = Annotations \<and> current_href i2 = None"
    by (simp add: i2_def init_def split: option.splits)
  from calmer_than_fresh [OF render_calmer(1) [OF r1]] f1
  have q: "current_text_style st1 = Annotations \<and> current_href st1 = None" by simp
  with f2 s1 have ss: "same_style i2 u"
    by (simp add: same_style_def u_def split: option.splits)
  have cu: "content u = xs"
    by (simp add: u_def s1 split: option.splits)
  from render_carried(1) [OF ss, of xs d2 "PList []"] r2
  have "carried xs (Inr (PList ys, st2)) (render d2 (PList xs) u)" by simp
  from carried_Inr_D [OF this] obtain st3 where
    r3: "render d2 (PList xs) u = Inr (PList (xs @ ys), st3)" by auto
  then have "parse n2 d2 s1 = Inr (st3\<lparr>content := xs @ ys\<rparr>)"
    by (simp add: parse_def u_def [symmetric] cu Let_def)
  with s1 rr show ?thesis by simp
qed

text \<open>
  Claim C3, as amended.  The title, content list, metadata and style belong to the parser
  object, which \<open>__init__\<close> sets up; \<open>parse\<close> does not reset them.  After a parse of some
  input on a fresh parser has returned, a second parse of the same input on the same
  parser returns too, and the content then holds the blocks of the first parse followed
  by the same blocks once more.
\<close>

theorem second_parse_appends:
  "parse name doc (init base) = Inr s1 \<Longrightarrow>
     \<exists>s2. parse name doc s1 = Inr s2 \<and> content s2 = content s1 @ content s1"
  by (rule parse_on_used_parser)

theorem second_parse_appends_witness:
  "parse None
     (Elem ''html'' [] None None [Elem ''body'' [] None None [Elem ''hr'' [] None None []]])
     (init None) = Inr ((init None)\<lparr>content := [Divider]\<rparr>) \<and>
   (\<exists>s2. parse None
           (Elem ''html'' [] None None [Elem ''body'' [] None None [Elem ''hr'' [] None None []]])
           ((init None)\<lparr>content := [Divider]\<rparr>) = Inr s2 \<and>
         content s2 = [Divider, Divider])"
proof -
  have e: "parse None
     (Elem ''html'' [] None None [Elem ''body'' [] None None [Elem ''hr'' [] None None []]])
     (init None) = Inr ((init None)\<lparr>content := [Divider]\<rparr>)"
    by (simp add: eval_defs)
  from second_parse_appends [OF e] e show ?thesis by simp
qed

text \<open>
  Claim C3 as stated fails on a document holding one \<open>hr\<close>: the second call leaves two
  dividers where the first left one.
\<close>

theorem repeated_parse_counterexample:
  "parse None
     (Elem ''html'' [] None None [Elem ''body'' [] None None [Elem ''hr'' [] None None []]])
     (init None) = Inr ((init None)\<lparr>content := [Divider]\<rparr>) \<and>
   parse None
     (Elem ''html'' [] None None [Elem ''body'' [] None None [Elem ''hr'' [] None None []]])
     ((init None)\<lparr>content := [Divider]\<rparr>) = Inr ((init None)\<lparr>content := [Divider, Divider]\<rparr>) \<and>
   content ((init None)\<lparr>content := [Divider, Divider]\<rparr>)
     \<noteq> content ((init None)\<lparr>content := [Divider]\<rparr>)"
  by (simp add: eval_defs)

end
